theory Spec2Isabelle
  imports Main "HOL-Library.AList" "HOL-Library.Transitive_Closure_Table"
begin

section \<open>The element tree\<close>

text \<open>
  ScrollablePane.base.tsx works on the browser's element tree through five members of
  \<^verbatim>\<open>Node\<close>/\<^verbatim>\<open>Element\<close>: \<^verbatim>\<open>children\<close>, \<^verbatim>\<open>contains\<close>,
  \<^verbatim>\<open>appendChild\<close>, \<^verbatim>\<open>insertBefore\<close> and \<^verbatim>\<open>removeChild\<close>.
  Elements are references; the tree is a store that gives every element its ordered list of
  children. An element without an entry has no children. Moving an element moves its subtree
  with it, because the subtree hangs on the element's own entry.
\<close>

type_synonym node = nat

type_synonym document = "(node \<times> node list) list"

datatype exn = NotFoundError | HierarchyRequestError | TypeError

definition children :: "document \<Rightarrow> node \<Rightarrow> node list" where
  "children d p = (case map_of d p of None \<Rightarrow> [] | Some ks \<Rightarrow> ks)"

definition childOf :: "document \<Rightarrow> node \<Rightarrow> node \<Rightarrow> bool" where
  "childOf d p c = (c \<in> set (children d p))"

text \<open>
  \<^verbatim>\<open>a.contains(b)\<close>: \<open>b\<close> is \<open>a\<close> or a descendant of \<open>a\<close>. The walk down
  from \<open>a\<close> is bounded by the number of entries of the store; that is enough, because a
  shortest path never visits an element twice and every element on it but the last has an
  entry (\<open>contains_descendant\<close> below).
\<close>

fun reach :: "nat \<Rightarrow> document \<Rightarrow> node \<Rightarrow> node \<Rightarrow> bool" where
  "reach 0 d a b = (a = b)"
| "reach (Suc n) d a b = (a = b \<or> (\<exists>c \<in> set (children d a). reach n d c b))"

definition contains :: "document \<Rightarrow> node \<Rightarrow> node \<Rightarrow> bool" where
  "contains d a b = reach (length d) d a b"

text \<open>Taking an element out of the child list of its parent.\<close>

definition detach :: "document \<Rightarrow> node \<Rightarrow> document" where
  "detach d c = map (\<lambda>(p, ks). (p, removeAll c ks)) d"

definition nextSibling :: "node list \<Rightarrow> node \<Rightarrow> node option" where
  "nextSibling ks c = (case dropWhile (\<lambda>k. k \<noteq> c) ks of _ # n # _ \<Rightarrow> Some n | _ \<Rightarrow> None)"

definition placeBefore :: "node \<Rightarrow> node option \<Rightarrow> node list \<Rightarrow> node list" where
  "placeBefore c r ks =
     (case r of
        None \<Rightarrow> ks @ [c]
      | Some k \<Rightarrow> takeWhile (\<lambda>x. x \<noteq> k) ks @ c # dropWhile (\<lambda>x. x \<noteq> k) ks)"

text \<open>
  \<^verbatim>\<open>parent.insertBefore(node, child)\<close> as the DOM standard defines it for elements:
  \<^verbatim>\<open>HierarchyRequestError\<close> when \<open>node\<close> is \<open>parent\<close> or one of its ancestors,
  \<^verbatim>\<open>NotFoundError\<close> when \<open>child\<close> is not null and not a child of \<open>parent\<close>;
  a reference child that is \<open>node\<close> itself is replaced by its next sibling; \<open>node\<close> leaves
  its old parent; a null reference child appends.
\<close>

definition insertBefore :: "document \<Rightarrow> node \<Rightarrow> node \<Rightarrow> node option \<Rightarrow> exn + document" where
  "insertBefore d parent c child =
     (if contains d c parent then Inl HierarchyRequestError
      else if (case child of None \<Rightarrow> False | Some r \<Rightarrow> r \<notin> set (children d parent))
      then Inl NotFoundError
      else
        (let r = (if child = Some c then nextSibling (children d parent) c else child);
             d' = detach d c
         in Inr (AList.update parent (placeBefore c r (children d' parent)) d')))"

definition appendChild :: "document \<Rightarrow> node \<Rightarrow> node \<Rightarrow> exn + document" where
  "appendChild d parent c = insertBefore d parent c None"

text \<open>
  \<^verbatim>\<open>parent.removeChild(child)\<close>: \<^verbatim>\<open>NotFoundError\<close> when \<open>child\<close> is not a
  child of \<open>parent\<close>.
\<close>

definition removeChild :: "document \<Rightarrow> node \<Rightarrow> node \<Rightarrow> exn + document" where
  "removeChild d parent c =
     (if c \<notin> set (children d parent) then Inl NotFoundError else Inr (detach d c))"

section \<open>Sticky regions and the pane\<close>

text \<open>
  What the pane reads of a \<^verbatim>\<open>Sticky\<close>: the two capability flags, the element
  references (each may be null), \<^verbatim>\<open>distanceFromTop\<close>, and the two flags of
  \<^verbatim>\<open>sticky.state\<close>. A \<^verbatim>\<open>Sticky\<close> is an object: the pane holds references
  (\<open>sid\<close>) and the objects live in a heap.
\<close>

type_synonym sid = nat
type_synonym hid = nat

record sticky =
  canStickyTop :: bool
  canStickyBottom :: bool
  stickyContentTop :: "node option"
  stickyContentBottom :: "node option"
  nonStickyContent :: "node option"
  root :: "node option"
  distanceFromTop :: int
  isStickyTop :: bool
  isStickyBottom :: bool

text \<open>
  Calls that leave the pane: a subscriber's handler, and the commands
  \<^verbatim>\<open>addSticky\<close>, \<^verbatim>\<open>resetSticky\<close> and \<^verbatim>\<open>forceUpdate\<close> of a
  \<^verbatim>\<open>Sticky\<close>. The pane records them in the order it makes them; what the callee does
  then is not the pane's code.
\<close>

datatype extcall =
    Handle hid node "node option"
  | StickyAddSticky sid node
  | StickyResetSticky sid
  | StickyForceUpdate sid

text \<open>
  The pane: \<^verbatim>\<open>_stickies\<close> and \<^verbatim>\<open>_subscribers\<close> are JavaScript sets, which
  iterate in insertion order; the four refs; the React state; and the world the pane works
  in (the heap of stickies, the element tree, the layout the browser has computed).
\<close>

record pane =
  stickies :: "sid list"
  subscribers :: "hid list"
  stickyAbove :: "node option"
  stickyBelow :: "node option"
  contentContainer :: "node option"
  stickyTopHeight :: int
  stickyBottomHeight :: int
  objs :: "sid \<Rightarrow> sticky"
  doc :: document
  offsetHeight :: "node \<Rightarrow> int"
  layoutTop :: "sid \<Rightarrow> int"
  calls :: "extcall list"

text \<open>
  A method either returns or throws; a throw keeps what the method had already changed.
\<close>

datatype outcome = Returns pane | Throws exn pane

fun stateOf :: "outcome \<Rightarrow> pane" where
  "stateOf (Returns st) = st"
| "stateOf (Throws e st) = st"

fun andThen :: "outcome \<Rightarrow> (pane \<Rightarrow> outcome) \<Rightarrow> outcome" where
  "andThen (Returns st) f = f st"
| "andThen (Throws e st) f = Throws e st"

definition domCall :: "pane \<Rightarrow> exn + document \<Rightarrow> outcome" where
  "domCall st r = (case r of Inl e \<Rightarrow> Throws e st | Inr d \<Rightarrow> Returns (st\<lparr>doc := d\<rparr>))"

definition setAdd :: "'a \<Rightarrow> 'a list \<Rightarrow> 'a list" where
  "setAdd x xs = (if x \<in> set xs then xs else xs @ [x])"

definition setDelete :: "'a \<Rightarrow> 'a list \<Rightarrow> 'a list" where
  "setDelete x xs = removeAll x xs"

definition subscribe :: "pane \<Rightarrow> hid \<Rightarrow> pane" where
  "subscribe st handler = st\<lparr>subscribers := setAdd handler (subscribers st)\<rparr>"

definition unsubscribe :: "pane \<Rightarrow> hid \<Rightarrow> pane" where
  "unsubscribe st handler = st\<lparr>subscribers := setDelete handler (subscribers st)\<rparr>"

definition notifySubscribers :: "pane \<Rightarrow> pane" where
  "notifySubscribers st =
     (case contentContainer st of
        None \<Rightarrow> st
      | Some c \<Rightarrow> st\<lparr>calls := calls st @ map (\<lambda>h. Handle h c (stickyBelow st)) (subscribers st)\<rparr>)"

text \<open>
  Modelled from the spec: \<^verbatim>\<open>Sticky.setDistanceFromTop\<close> is not part of
  ScrollablePane.base.tsx. The spec: the region recomputes its \<^verbatim>\<open>distanceFromTop\<close>
  relative to the scroll content from the current layout. \<open>layoutTop\<close> is that measurement.
\<close>

definition setDistanceFromTop :: "pane \<Rightarrow> sid \<Rightarrow> pane" where
  "setDistanceFromTop st s =
     st\<lparr>objs := (objs st)(s := (objs st s)\<lparr>distanceFromTop := layoutTop st s\<rparr>)\<rparr>"

subsection \<open>\<^verbatim>\<open>_addToStickyContainer\<close>\<close>

definition edgeContent :: "pane \<Rightarrow> node \<Rightarrow> sid \<Rightarrow> node option" where
  "edgeContent st stickyContainer item =
     (if Some stickyContainer = stickyAbove st then stickyContentTop (objs st item)
      else stickyContentBottom (objs st item))"

definition stickyList :: "pane \<Rightarrow> sid \<Rightarrow> node \<Rightarrow> sid list" where
  "stickyList st s stickyContainer =
     filter (\<lambda>stickyItem.
        if Some stickyContainer = stickyAbove st \<and> canStickyTop (objs st s) then True
        else if canStickyBottom (objs st s) then True
        else False) (stickies st)"

definition stickyListSorted :: "pane \<Rightarrow> sid \<Rightarrow> node \<Rightarrow> sid list" where
  "stickyListSorted st s stickyContainer =
     filter (\<lambda>item.
        case edgeContent st stickyContainer item of
          None \<Rightarrow> False
        | Some stickyContent \<Rightarrow> stickyContent \<in> set (children (doc st) stickyContainer))
       (sort_key (\<lambda>a. distanceFromTop (objs st a)) (stickyList st s stickyContainer))"

definition targetStickyToAppendBefore :: "pane \<Rightarrow> sid \<Rightarrow> node \<Rightarrow> sid option" where
  "targetStickyToAppendBefore st s stickyContainer =
     find (\<lambda>i. distanceFromTop (objs st i) \<ge> distanceFromTop (objs st s))
       (stickyListSorted st s stickyContainer)"

definition addToStickyContainer :: "pane \<Rightarrow> sid \<Rightarrow> node \<Rightarrow> node \<Rightarrow> outcome" where
  "addToStickyContainer st s stickyContainer stickyContentToAdd =
     (if children (doc st) stickyContainer = []
      then domCall st (appendChild (doc st) stickyContainer stickyContentToAdd)
      else if \<not> contains (doc st) stickyContainer stickyContentToAdd
      then
        (let targetContainer =
               (case targetStickyToAppendBefore st s stickyContainer of
                  None \<Rightarrow> None
                | Some t \<Rightarrow> edgeContent st stickyContainer t)
         in domCall st (insertBefore (doc st) stickyContainer stickyContentToAdd targetContainer))
      else Returns st)"

subsection \<open>The public operations\<close>

definition sortSticky :: "pane \<Rightarrow> sid \<Rightarrow> outcome" where
  "sortSticky st s =
     (case (stickyAbove st, stickyBelow st) of
        (Some sAbove, Some sBelow) \<Rightarrow>
          andThen
            (case (canStickyTop (objs st s), stickyContentTop (objs st s)) of
               (True, Some t) \<Rightarrow> addToStickyContainer st s sAbove t
             | _ \<Rightarrow> Returns st)
            (\<lambda>st'.
               case (canStickyBottom (objs st' s), stickyContentBottom (objs st' s)) of
                 (True, Some b) \<Rightarrow> addToStickyContainer st' s sBelow b
               | _ \<Rightarrow> Returns st')
      | _ \<Rightarrow> Returns st)"

definition addSticky :: "pane \<Rightarrow> sid \<Rightarrow> outcome" where
  "addSticky st s =
     (let st1 = st\<lparr>stickies := setAdd s (stickies st)\<rparr>
      in andThen
           (case contentContainer st1 of
              None \<Rightarrow> Returns st1
            | Some c \<Rightarrow> sortSticky (setDistanceFromTop st1 s) s)
           (\<lambda>st2. Returns (notifySubscribers st2)))"

definition removeStickyFromContainers :: "pane \<Rightarrow> sid \<Rightarrow> outcome" where
  "removeStickyFromContainers st s =
     andThen
       (case (stickyAbove st, stickyContentTop (objs st s)) of
          (Some sAbove, Some t) \<Rightarrow> domCall st (removeChild (doc st) sAbove t)
        | _ \<Rightarrow> Returns st)
       (\<lambda>st'.
          case (stickyBelow st', stickyContentBottom (objs st' s)) of
            (Some sBelow, Some b) \<Rightarrow> domCall st' (removeChild (doc st') sBelow b)
          | _ \<Rightarrow> Returns st')"

definition removeSticky :: "pane \<Rightarrow> sid \<Rightarrow> outcome" where
  "removeSticky st s =
     andThen (removeStickyFromContainers (st\<lparr>stickies := setDelete s (stickies st)\<rparr>) s)
       (\<lambda>st'. Returns (notifySubscribers st'))"

subsection \<open>\<^verbatim>\<open>_checkStickyStatus\<close> and \<^verbatim>\<open>updateStickyRefHeights\<close>\<close>

definition checkStickyStatus :: "pane \<Rightarrow> sid \<Rightarrow> pane" where
  "checkStickyStatus st s =
     (case (stickyAbove st, stickyBelow st, contentContainer st, nonStickyContent (objs st s)) of
        (Some sAbove, Some sBelow, Some content, Some n) \<Rightarrow>
          if isStickyTop (objs st s) \<or> isStickyBottom (objs st s)
          then
            st\<lparr>calls := calls st
               @ (case stickyContentTop (objs st s) of
                    Some t \<Rightarrow>
                      if isStickyTop (objs st s) \<and> \<not> contains (doc st) sAbove n
                      then [StickyAddSticky s t] else []
                  | None \<Rightarrow> [])
               @ (case stickyContentBottom (objs st s) of
                    Some b \<Rightarrow>
                      if isStickyBottom (objs st s) \<and> \<not> contains (doc st) sBelow n
                      then [StickyAddSticky s b] else []
                  | None \<Rightarrow> [])\<rparr>
          else if \<not> contains (doc st) content n
          then st\<lparr>calls := calls st @ [StickyResetSticky s]\<rparr>
          else st
      | _ \<Rightarrow> st)"

text \<open>
  One round of the \<^verbatim>\<open>forEach\<close> of \<^verbatim>\<open>updateStickyRefHeights\<close>, on the two
  running totals and the pane.
\<close>

fun heightStep :: "sid \<Rightarrow> int \<times> int \<times> pane \<Rightarrow> int \<times> int \<times> pane" where
  "heightStep s (topH, bottomH, st) =
     (case nonStickyContent (objs st s) of
        None \<Rightarrow> (topH, bottomH, st)
      | Some n \<Rightarrow>
          ((if isStickyTop (objs st s) then topH + offsetHeight st n else topH),
           (if isStickyBottom (objs st s) then bottomH + offsetHeight st n else bottomH),
           checkStickyStatus st s))"

text \<open>
  \<^verbatim>\<open>setState\<close> with the two totals, as React runs it for this class when the call is
  not batched: \<^verbatim>\<open>shouldComponentUpdate\<close> sees the state before and the state to
  come (the props are the same on both sides, so only the two totals decide), the state is
  replaced, and when the component updates, \<^verbatim>\<open>componentDidUpdate\<close> runs with the
  previous state. The scroll position that \<^verbatim>\<open>componentDidUpdate\<close> may restore when
  the props changed is not part of the model.
\<close>

definition shouldComponentUpdate :: "pane \<Rightarrow> int \<Rightarrow> int \<Rightarrow> bool" where
  "shouldComponentUpdate st nextTopHeight nextBottomHeight =
     (stickyTopHeight st \<noteq> nextTopHeight \<or> stickyBottomHeight st \<noteq> nextBottomHeight)"

definition componentDidUpdate :: "pane \<Rightarrow> int \<Rightarrow> int \<Rightarrow> pane" where
  "componentDidUpdate st prevTopHeight prevBottomHeight =
     (if prevTopHeight \<noteq> stickyTopHeight st \<or> prevBottomHeight \<noteq> stickyBottomHeight st
      then notifySubscribers st else st)"

definition setState :: "pane \<Rightarrow> int \<Rightarrow> int \<Rightarrow> pane" where
  "setState st topH bottomH =
     (let st' = st\<lparr>stickyTopHeight := topH, stickyBottomHeight := bottomH\<rparr>
      in if shouldComponentUpdate st topH bottomH
         then componentDidUpdate st' (stickyTopHeight st) (stickyBottomHeight st)
         else st')"

definition updateStickyRefHeights :: "pane \<Rightarrow> pane" where
  "updateStickyRefHeights st =
     (case fold heightStep (stickies st) (0, 0, st) of
        (topH, bottomH, st') \<Rightarrow> setState st' topH bottomH)"

subsection \<open>The mutation observer's callback\<close>

record mutationRecord =
  target :: node

definition checkIfMutationIsSticky :: "pane \<Rightarrow> mutationRecord \<Rightarrow> bool" where
  "checkIfMutationIsSticky st r =
     (case (stickyAbove st, stickyBelow st) of
        (Some sAbove, Some sBelow) \<Rightarrow>
          contains (doc st) sAbove (target r) \<or> contains (doc st) sBelow (target r)
      | _ \<Rightarrow> False)"

text \<open>
  \<^verbatim>\<open>mutation[0].target\<close> is read inside the loop over the stickies, after
  \<^verbatim>\<open>sticky.root &&\<close>; on an empty batch it is a \<^verbatim>\<open>TypeError\<close> at the first
  sticky that has a root.
\<close>

definition mutationCallback :: "pane \<Rightarrow> mutationRecord list \<Rightarrow> outcome" where
  "mutationCallback st mutation =
     (let st1 = notifySubscribers st
      in if list_ex (checkIfMutationIsSticky st1) mutation
         then Returns (updateStickyRefHeights st1)
         else
           (case mutation of
              [] \<Rightarrow>
                if list_ex (\<lambda>s. root (objs st1 s) \<noteq> None) (stickies st1)
                then Throws TypeError st1 else Returns st1
            | m # _ \<Rightarrow>
                Returns (st1\<lparr>calls := calls st1
                   @ map StickyForceUpdate
                       (filter (\<lambda>s. case root (objs st1 s) of
                                      None \<Rightarrow> False
                                    | Some r \<Rightarrow> contains (doc st1) r (target m))
                          (stickies st1))\<rparr>)))"


section \<open>What the claims speak of\<close>

text \<open>Several \<^verbatim>\<open>addSticky\<close> calls in a row; a throw ends the run.\<close>

fun addAll :: "pane \<Rightarrow> sid list \<Rightarrow> outcome" where
  "addAll st [] = Returns st"
| "addAll st (s # ss) = andThen (addSticky st s) (\<lambda>st'. addAll st' ss)"

text \<open>
  The registered region that owns a child of a pinned container, and the distances of the
  owners of a container's children, in the order of the children.
\<close>

definition ownerOf :: "pane \<Rightarrow> node \<Rightarrow> node \<Rightarrow> sid option" where
  "ownerOf st stickyContainer c =
     find (\<lambda>i. edgeContent st stickyContainer i = Some c) (stickies st)"

definition childDistances :: "pane \<Rightarrow> node \<Rightarrow> int list" where
  "childDistances st stickyContainer =
     concat (map (\<lambda>c. case ownerOf st stickyContainer c of
                        None \<Rightarrow> []
                      | Some i \<Rightarrow> [distanceFromTop (objs st i)])
               (children (doc st) stickyContainer))"

text \<open>
  The candidate sibling list in the words of the spec (4.2): the regions of the registry
  whose own capability flag matches the target edge, of these the ones whose pinned
  representation is already a child of the container, sorted ascending by
  \<^verbatim>\<open>distanceFromTop\<close>.
\<close>

definition specCandidateSiblings :: "pane \<Rightarrow> node \<Rightarrow> sid list" where
  "specCandidateSiblings st stickyContainer =
     sort_key (\<lambda>a. distanceFromTop (objs st a))
       (filter (\<lambda>item.
           case edgeContent st stickyContainer item of
             None \<Rightarrow> False
           | Some stickyContent \<Rightarrow> stickyContent \<in> set (children (doc st) stickyContainer))
          (filter (\<lambda>item.
              if Some stickyContainer = stickyAbove st then canStickyTop (objs st item)
              else canStickyBottom (objs st item))
             (stickies st)))"

text \<open>
  The membership invariant in the words of the spec (3): a pinned representation is a child
  of its pinned container if and only if the owning region's \<^verbatim>\<open>isStickyTop\<close>
  (\<^verbatim>\<open>isStickyBottom\<close>) flag is true.
\<close>

definition memberIffPinned :: "pane \<Rightarrow> sid \<Rightarrow> bool" where
  "memberIffPinned st s =
     ((case (stickyAbove st, stickyContentTop (objs st s)) of
         (Some sAbove, Some t) \<Rightarrow>
           (t \<in> set (children (doc st) sAbove)) = isStickyTop (objs st s)
       | _ \<Rightarrow> True)
      \<and> (case (stickyBelow st, stickyContentBottom (objs st s)) of
         (Some sBelow, Some b) \<Rightarrow>
           (b \<in> set (children (doc st) sBelow)) = isStickyBottom (objs st s)
       | _ \<Rightarrow> True))"

text \<open>
  The rendered height of a region: \<^verbatim>\<open>nonStickyContent.offsetHeight\<close>; a region
  that has no \<^verbatim>\<open>nonStickyContent\<close> renders nothing.
\<close>

definition renderedHeight :: "pane \<Rightarrow> sid \<Rightarrow> int" where
  "renderedHeight st s =
     (case nonStickyContent (objs st s) of None \<Rightarrow> 0 | Some n \<Rightarrow> offsetHeight st n)"

text \<open>
  The two halves of \<^verbatim>\<open>sortSticky\<close>, named for the proofs: when both containers are
  there, \<^verbatim>\<open>sortSticky\<close> is the first and then the second.
\<close>

definition sortTop :: "pane \<Rightarrow> sid \<Rightarrow> node \<Rightarrow> outcome" where
  "sortTop st s sAbove =
     (case (canStickyTop (objs st s), stickyContentTop (objs st s)) of
        (True, Some t) \<Rightarrow> addToStickyContainer st s sAbove t
      | _ \<Rightarrow> Returns st)"

definition sortBottom :: "pane \<Rightarrow> sid \<Rightarrow> node \<Rightarrow> outcome" where
  "sortBottom st s sBelow =
     (case (canStickyBottom (objs st s), stickyContentBottom (objs st s)) of
        (True, Some b) \<Rightarrow> addToStickyContainer st s sBelow b
      | _ \<Rightarrow> Returns st)"

text \<open>
  A region is well formed for a pane when its two pinned representations are different
  elements, and its top representation, when it is inside \<^verbatim>\<open>stickyAbove\<close> at all, is
  a child of it (the pane only ever inserts representations as children).
\<close>

definition repsApart :: "pane \<Rightarrow> sid \<Rightarrow> bool" where
  "repsApart st s =
     (case stickyContentTop (objs st s) of
        None \<Rightarrow> True
      | Some t \<Rightarrow>
          stickyContentBottom (objs st s) \<noteq> Some t
          \<and> (case stickyAbove st of
                None \<Rightarrow> True
              | Some sAbove \<Rightarrow>
                  if contains (doc st) sAbove t then t \<in> set (children (doc st) sAbove)
                  else True))"

text \<open>What one region adds to each total.\<close>

definition topPart :: "pane \<Rightarrow> sid \<Rightarrow> int" where
  "topPart st s = (if isStickyTop (objs st s) then renderedHeight st s else 0)"

definition bottomPart :: "pane \<Rightarrow> sid \<Rightarrow> int" where
  "bottomPart st s = (if isStickyBottom (objs st s) then renderedHeight st s else 0)"

text \<open>The calls the pane made between two states.\<close>

definition issued :: "pane \<Rightarrow> pane \<Rightarrow> extcall list" where
  "issued st st' = drop (length (calls st)) (calls st')"

text \<open>A region changes its pin state, or its top capability (its own business).\<close>

definition setPinned :: "pane \<Rightarrow> sid \<Rightarrow> bool \<Rightarrow> bool \<Rightarrow> pane" where
  "setPinned st s t b =
     st\<lparr>objs := (objs st)(s := (objs st s)\<lparr>isStickyTop := t, isStickyBottom := b\<rparr>)\<rparr>"

definition setCanStickyTop :: "pane \<Rightarrow> sid \<Rightarrow> bool \<Rightarrow> pane" where
  "setCanStickyTop st s v =
     st\<lparr>objs := (objs st)(s := (objs st s)\<lparr>canStickyTop := v\<rparr>)\<rparr>"

text \<open>
  The public operations that C6 names, as one type, and the same outcome with the state
  seen through a function (for saying that an operation commutes with a change of the pin
  flags).
\<close>

datatype operation =
    AddSticky sid
  | RemoveSticky sid
  | SortSticky sid
  | UpdateStickyRefHeights
  | NotifySubscribers

fun perform :: "pane \<Rightarrow> operation \<Rightarrow> outcome" where
  "perform st (AddSticky s) = addSticky st s"
| "perform st (RemoveSticky s) = removeSticky st s"
| "perform st (SortSticky s) = sortSticky st s"
| "perform st UpdateStickyRefHeights = Returns (updateStickyRefHeights st)"
| "perform st NotifySubscribers = Returns (notifySubscribers st)"

fun overState :: "(pane \<Rightarrow> pane) \<Rightarrow> outcome \<Rightarrow> outcome" where
  "overState f (Returns st) = Returns (f st)"
| "overState f (Throws e st) = Throws e (f st)"

subsection \<open>A mounted pane with three regions\<close>

text \<open>
  Element 0 is the pane's root, 1 the content container, 2 \<^verbatim>\<open>stickyAbove\<close>, 3
  \<^verbatim>\<open>stickyBelow\<close> (inside its wrapper 4). Region \<open>i\<close> has the root \<open>10 (i+1)\<close>
  in the content container, with the top representation \<open>10 (i+1) + 1\<close>, the content
  \<open>10 (i+1) + 3\<close> and, for region 2, the bottom representation 32. No region is
  registered yet; one handler (7) is subscribed.
\<close>

definition mkSticky ::
  "bool \<Rightarrow> bool \<Rightarrow> node option \<Rightarrow> node option \<Rightarrow> node option \<Rightarrow> node option \<Rightarrow> sticky" where
  "mkSticky ct cb t b n r =
     \<lparr>canStickyTop = ct, canStickyBottom = cb, stickyContentTop = t, stickyContentBottom = b,
      nonStickyContent = n, root = r, distanceFromTop = 0,
      isStickyTop = False, isStickyBottom = False\<rparr>"

definition pane0 :: pane where
  "pane0 =
     \<lparr>stickies = [], subscribers = [7],
      stickyAbove = Some 2, stickyBelow = Some 3, contentContainer = Some 1,
      stickyTopHeight = 0, stickyBottomHeight = 0,
      objs = (\<lambda>_. mkSticky False False None None None None)
        (0 := mkSticky True False (Some 11) None (Some 13) (Some 10),
         1 := mkSticky True False (Some 21) None (Some 23) (Some 20),
         2 := mkSticky True True (Some 31) (Some 32) (Some 33) (Some 30)),
      doc = [(0, [1, 2, 4]), (4, [3]), (1, [10, 20, 30]),
             (10, [11, 13]), (20, [21, 23]), (30, [31, 32, 33])],
      offsetHeight = (\<lambda>_. 0)(13 := 40, 23 := 25, 33 := 10),
      layoutTop = (\<lambda>_. 0)(0 := 5, 1 := 5, 2 := 3),
      calls = []\<rparr>"

text \<open>The same pane with region 0 at distance 10 and region 1 at distance 5.\<close>

definition paneAB :: pane where
  "paneAB = pane0\<lparr>layoutTop := (\<lambda>_. 0)(0 := 10, 1 := 5)\<rparr>"

text \<open>
  Region 0 was added while top-capable and then lost the capability; region 1 is registered
  and measured, as at the call of \<^verbatim>\<open>_addToStickyContainer\<close> for it.
\<close>

definition paneCap :: pane where
  "paneCap = setCanStickyTop (stateOf (addSticky paneAB 0)) 0 False"

definition paneCapAt1 :: pane where
  "paneCapAt1 = setDistanceFromTop (paneCap\<lparr>stickies := setAdd 1 (stickies paneCap)\<rparr>) 1"

text \<open>Region 0 has been added.\<close>

definition paneOne :: pane where
  "paneOne = stateOf (addSticky pane0 0)"

text \<open>Region 0 is added and then reports pinned-top.\<close>

definition panePinned :: pane where
  "panePinned = setPinned paneOne 0 True False"

text \<open>The same pane without its \<^verbatim>\<open>stickyBelow\<close>.\<close>

definition paneHalf :: pane where
  "paneHalf = panePinned\<lparr>stickyBelow := None\<rparr>"

text \<open>
  Region 0 is registered and reports pinned-top, its content is in the normal flow and its
  top representation has not been placed.
\<close>

definition paneFlow :: pane where
  "paneFlow = (setPinned pane0 0 True False)\<lparr>stickies := [0]\<rparr>"

text \<open>The same, and region 0 has no \<^verbatim>\<open>nonStickyContent\<close>.\<close>

definition paneNoContent :: pane where
  "paneNoContent =
     paneFlow\<lparr>objs := (objs paneFlow)(0 := (objs paneFlow 0)\<lparr>nonStickyContent := None\<rparr>)\<rparr>"

text \<open>All three regions registered; 0 pinned top, 2 pinned top and bottom.\<close>

definition paneThree :: pane where
  "paneThree = setPinned (setPinned (stateOf (addAll pane0 [0, 1, 2])) 0 True False) 2 True True"

text \<open>Region 2 has been added: both its representations are placed.\<close>

definition paneTwo :: pane where
  "paneTwo = stateOf (addSticky pane0 2)"

text \<open>
  The element tree is another one: the bottom representation of region 2 (32) is a child
  of \<^verbatim>\<open>stickyAbove\<close>, and its top representation (31) is a child of 32.
\<close>

definition paneNested :: pane where
  "paneNested =
     pane0\<lparr>doc := [(0, [1, 2, 4]), (4, [3]), (1, [10, 20, 30]),
                    (10, [11, 13]), (20, [21, 23]), (30, [33]), (2, [32]), (32, [31])]\<rparr>"

text \<open>
  Region 0 was added while it was not top-capable, so that its top representation was not
  placed; it has since become top-capable and reports pinned-top. Its content is in the
  normal flow.
\<close>

definition paneLate :: pane where
  "paneLate =
     setPinned (setCanStickyTop (stateOf (addSticky (setCanStickyTop pane0 0 False) 0)) 0 True)
       0 True False"

text \<open>The same, with the content of region 0 (13) moved under its top representation (11).\<close>

definition paneMoved :: pane where
  "paneMoved = stateOf (domCall paneLate (appendChild (doc paneLate) 11 13))"

text \<open>
  Region 0 is added (its top representation is in \<^verbatim>\<open>stickyAbove\<close>) and reports
  pinned-top, and its content (13) has been moved under its top representation.
\<close>

definition paneSettled :: pane where
  "paneSettled = stateOf (domCall panePinned (appendChild (doc panePinned) 11 13))"

section \<open>Containers in order\<close>

text \<open>
  The invariant behind the order of a pinned container. \<open>repOf\<close> is the representation
  of a region for a container. A container is \<open>tidy\<close> for a list of owners when its
  children are the representations of these registered regions, one each and in this order,
  and the owners stand in non-decreasing \<^verbatim>\<open>distanceFromTop\<close>.
\<close>

definition repOf :: "pane \<Rightarrow> node \<Rightarrow> sid \<Rightarrow> node" where
  "repOf st stickyContainer i = the (edgeContent st stickyContainer i)"

definition tidy :: "pane \<Rightarrow> node \<Rightarrow> sid list \<Rightarrow> bool" where
  "tidy st stickyContainer os =
     (distinct os \<and> set os \<subseteq> set (stickies st)
      \<and> (\<forall>i \<in> set os. edgeContent st stickyContainer i \<noteq> None)
      \<and> children (doc st) stickyContainer = map (repOf st stickyContainer) os
      \<and> sorted (map (\<lambda>i. distanceFromTop (objs st i)) os))"

text \<open>
  A pane is \<open>regular\<close> for a set \<open>S\<close> of regions when it is mounted (content container
  and two different pinned containers), its registry lies in \<open>S\<close>, no two regions of
  \<open>S\<close> are laid out at the same distance, every registered region still has the distance
  it measured, and no element is the representation of two regions of \<open>S\<close> or both the
  top and a bottom representation.
\<close>

definition regular :: "pane \<Rightarrow> sid set \<Rightarrow> bool" where
  "regular st S =
     (contentContainer st \<noteq> None
      \<and> stickyAbove st \<noteq> None \<and> stickyBelow st \<noteq> None \<and> stickyAbove st \<noteq> stickyBelow st
      \<and> set (stickies st) \<subseteq> S \<and> distinct (stickies st)
      \<and> inj_on (layoutTop st) S
      \<and> (\<forall>i \<in> set (stickies st). distanceFromTop (objs st i) = layoutTop st i)
      \<and> (\<forall>i \<in> S. \<forall>j \<in> S. \<forall>t. stickyContentTop (objs st i) = Some t
             \<longrightarrow> stickyContentTop (objs st j) = Some t \<longrightarrow> i = j)
      \<and> (\<forall>i \<in> S. \<forall>j \<in> S. \<forall>t. stickyContentBottom (objs st i) = Some t
             \<longrightarrow> stickyContentBottom (objs st j) = Some t \<longrightarrow> i = j)
      \<and> (\<forall>i \<in> S. \<forall>j \<in> S. \<forall>t. stickyContentTop (objs st i) = Some t
             \<longrightarrow> stickyContentBottom (objs st j) \<noteq> Some t))"

text \<open>No element is the representation, for this container, of two registered regions.\<close>

definition ownsOne :: "pane \<Rightarrow> node \<Rightarrow> bool" where
  "ownsOne st stickyContainer =
     (\<forall>i \<in> set (stickies st). \<forall>j \<in> set (stickies st). \<forall>k.
        edgeContent st stickyContainer i = Some k
        \<longrightarrow> edgeContent st stickyContainer j = Some k \<longrightarrow> i = j)"

text \<open>A regular pane with \<^verbatim>\<open>stickyAbove\<close> \<open>a\<close> and \<^verbatim>\<open>stickyBelow\<close> \<open>b\<close>, both tidy.\<close>

definition orderly :: "pane \<Rightarrow> sid set \<Rightarrow> node \<Rightarrow> node \<Rightarrow> bool" where
  "orderly st S a b =
     (regular st S \<and> stickyAbove st = Some a \<and> stickyBelow st = Some b
      \<and> (\<exists>os. tidy st a os) \<and> (\<exists>os. tidy st b os))"

section \<open>Facts about the element tree\<close>

lemma children_detach: "children (detach d c) p = removeAll c (children d p)"
  by (induction d) (auto simp: children_def detach_def)

lemma children_update: "children (AList.update p ks d) q = (if q = p then ks else children d q)"
  by (simp add: children_def update_conv')

lemma reach_self: "reach n d a a"
  by (cases n) simp_all

lemma child_contains: "c \<in> set (children d p) \<Longrightarrow> contains d p c"
proof -
  assume c: "c \<in> set (children d p)"
  then have "d \<noteq> []" by (auto simp: children_def)
  then obtain n where "length d = Suc n" by (cases d) auto
  with c reach_self[of n d c] show ?thesis by (auto simp: contains_def)
qed

lemma reach_sound: "reach n d a b \<Longrightarrow> (childOf d)\<^sup>*\<^sup>* a b"
proof (induction n arbitrary: a)
  case 0
  then show ?case by simp
next
  case (Suc n)
  from Suc.prems have "a = b \<or> (\<exists>c \<in> set (children d a). reach n d c b)" by simp
  then show ?case
  proof
    assume "a = b"
    then show ?thesis by simp
  next
    assume "\<exists>c \<in> set (children d a). reach n d c b"
    then obtain c where c: "childOf d a c" "reach n d c b" by (auto simp: childOf_def)
    from Suc.IH[OF c(2)] c(1) show ?thesis by (rule converse_rtranclp_into_rtranclp[rotated])
  qed
qed

lemma path_reach:
  "rtrancl_path (childOf d) x xs y \<Longrightarrow> length xs \<le> n \<Longrightarrow> reach n d x y"
proof (induction arbitrary: n rule: rtrancl_path.induct)
  case (base x)
  then show ?case by (simp add: reach_self)
next
  case (step x z zs y)
  from step.prems obtain m where n: "n = Suc m" and m: "length zs \<le> m" by (cases n) auto
  from step.IH[OF m] step.hyps(1) show ?case by (auto simp: n childOf_def)
qed

lemma path_sources:
  "rtrancl_path (childOf d) x xs y \<Longrightarrow> set (butlast (x # xs)) \<subseteq> fst ` set d"
proof (induction rule: rtrancl_path.induct)
  case (base x)
  then show ?case by simp
next
  case (step x z zs y)
  from step.hyps(1) have "map_of d x \<noteq> None"
    by (cases "map_of d x") (auto simp: childOf_def children_def)
  then have "x \<in> fst ` set d" by (auto dest: map_of_SomeD intro: rev_image_eqI)
  with step.IH show ?case by simp
qed

lemma distinct_path_short:
  assumes p: "rtrancl_path (childOf d) x xs y" and dist: "distinct (x # xs)"
  shows "length xs \<le> length d"
proof -
  from dist have "distinct (butlast (x # xs))" by (rule distinct_butlast)
  then have "card (set (butlast (x # xs))) = length (butlast (x # xs))" by (rule distinct_card)
  also have "\<dots> = length xs" by simp
  finally have "length xs = card (set (butlast (x # xs)))" by simp
  also from path_sources[OF p] have "\<dots> \<le> card (fst ` set d)"
    by (intro card_mono) auto
  also have "\<dots> \<le> card (set d)" by (rule card_image_le) simp
  also have "\<dots> \<le> length d" by (rule card_length)
  finally show ?thesis .
qed

lemma contains_descendant: "contains d a b \<longleftrightarrow> (childOf d)\<^sup>*\<^sup>* a b"
proof
  assume "contains d a b"
  then show "(childOf d)\<^sup>*\<^sup>* a b" by (simp add: contains_def reach_sound)
next
  assume "(childOf d)\<^sup>*\<^sup>* a b"
  then obtain xs where "rtrancl_path (childOf d) a xs b"
    by (auto simp: rtranclp_eq_rtrancl_path)
  then obtain xs' where p: "rtrancl_path (childOf d) a xs' b" and dist: "distinct (a # xs')"
    by (rule rtrancl_path_distinct)
  from path_reach[OF p distinct_path_short[OF p dist]] show "contains d a b"
    by (simp add: contains_def)
qed

lemma in_placeBefore: "c \<in> set (placeBefore c r ks)"
  by (cases r) (simp_all add: placeBefore_def)

lemma set_placeBefore: "set (placeBefore c r ks) = insert c (set ks)"
proof (cases r)
  case None
  then show ?thesis by (simp add: placeBefore_def)
next
  case (Some k)
  have "set (takeWhile (\<lambda>x. x \<noteq> k) ks) \<union> set (dropWhile (\<lambda>x. x \<noteq> k) ks) = set ks"
    by (metis set_append takeWhile_dropWhile_id)
  then show ?thesis by (auto simp: placeBefore_def Some)
qed

lemma keep_placeBefore: "x \<in> set ks \<Longrightarrow> x \<in> set (placeBefore c r ks)"
  by (simp add: set_placeBefore)

lemma insertBefore_child: "insertBefore d p c r = Inr d' \<Longrightarrow> c \<in> set (children d' p)"
  by (auto simp: insertBefore_def Let_def children_update in_placeBefore split: if_splits)

lemma insertBefore_keeps:
  "insertBefore d q y r = Inr d' \<Longrightarrow> x \<in> set (children d p) \<Longrightarrow> x \<noteq> y \<Longrightarrow> x \<in> set (children d' p)"
  by (auto simp: insertBefore_def Let_def children_update children_detach keep_placeBefore split: if_splits)

section \<open>Facts about placement\<close>


lemma place_returns:
  assumes "addToStickyContainer st s c x = Returns st'"
  shows "(st' = st \<and> children (doc st) c \<noteq> [] \<and> contains (doc st) c x)
       \<or> (\<exists>d' r. st' = st\<lparr>doc := d'\<rparr> \<and> insertBefore (doc st) c x r = Inr d')"
  using assms
  by (auto simp: addToStickyContainer_def domCall_def appendChild_def Let_def
           split: if_splits sum.splits)


lemma place_frame:
  "addToStickyContainer st s c x = Returns st' \<Longrightarrow> st' = st\<lparr>doc := doc st'\<rparr>"
  by (auto simp: addToStickyContainer_def domCall_def appendChild_def Let_def
           split: if_splits sum.splits)


lemma place_keeps_other:
  assumes "addToStickyContainer st s c y = Returns st'"
    and "x \<in> set (children (doc st) p)" and "x \<noteq> y"
  shows "x \<in> set (children (doc st') p)"
proof -
  from place_returns[OF assms(1)] show ?thesis
  proof
    assume "st' = st \<and> children (doc st) c \<noteq> [] \<and> contains (doc st) c y"
    with assms(2) show ?thesis by simp
  next
    assume "\<exists>d' r. st' = st\<lparr>doc := d'\<rparr> \<and> insertBefore (doc st) c y r = Inr d'"
    then obtain d' r where "st' = st\<lparr>doc := d'\<rparr>" "insertBefore (doc st) c y r = Inr d'"
      by blast
    with assms(2,3) show ?thesis by (simp add: insertBefore_keeps)
  qed
qed

lemma place_fields:
  assumes "addToStickyContainer st s c x = Returns st'"
  shows "objs st' = objs st" "stickyAbove st' = stickyAbove st" "stickyBelow st' = stickyBelow st"
    "stickies st' = stickies st" "calls st' = calls st" "contentContainer st' = contentContainer st"
proof -
  from place_frame[OF assms] obtain d where "st' = st\<lparr>doc := d\<rparr>" by blast
  then show "objs st' = objs st" "stickyAbove st' = stickyAbove st" "stickyBelow st' = stickyBelow st"
    "stickies st' = stickies st" "calls st' = calls st" "contentContainer st' = contentContainer st"
    by simp_all
qed

subsection \<open>The two halves of \<^verbatim>\<open>sortSticky\<close>\<close>

lemma sortSticky_unmounted:
  "stickyAbove st = None \<or> stickyBelow st = None \<Longrightarrow> sortSticky st s = Returns st"
  by (auto simp: sortSticky_def split: option.splits)

lemma sortSticky_steps:
  "stickyAbove st = Some a \<Longrightarrow> stickyBelow st = Some b \<Longrightarrow>
   sortSticky st s = andThen (sortTop st s a) (\<lambda>st'. sortBottom st' s b)"
  by (simp add: sortSticky_def sortTop_def sortBottom_def)

lemma sortTop_cases:
  "(sortTop p s a = Returns p
      \<and> \<not> (canStickyTop (objs p s) \<and> stickyContentTop (objs p s) \<noteq> None))
   \<or> (\<exists>x. canStickyTop (objs p s) \<and> stickyContentTop (objs p s) = Some x
          \<and> sortTop p s a = addToStickyContainer p s a x)"
  by (cases "canStickyTop (objs p s)"; cases "stickyContentTop (objs p s)")
     (simp_all add: sortTop_def)

lemma sortBottom_cases:
  "(sortBottom p s b = Returns p
      \<and> \<not> (canStickyBottom (objs p s) \<and> stickyContentBottom (objs p s) \<noteq> None))
   \<or> (\<exists>y. canStickyBottom (objs p s) \<and> stickyContentBottom (objs p s) = Some y
          \<and> sortBottom p s b = addToStickyContainer p s b y)"
  by (cases "canStickyBottom (objs p s)"; cases "stickyContentBottom (objs p s)")
     (simp_all add: sortBottom_def)



lemma sortTop_fields:
  "sortTop p s a = Returns p' \<Longrightarrow>
   objs p' = objs p \<and> stickyAbove p' = stickyAbove p \<and> stickyBelow p' = stickyBelow p"
  using sortTop_cases[of p s a] place_fields(1,2,3)[of p s a _ p'] by auto

lemma sortBottom_fields:
  "sortBottom p s b = Returns p' \<Longrightarrow>
   objs p' = objs p \<and> stickyAbove p' = stickyAbove p \<and> stickyBelow p' = stickyBelow p"
  using sortBottom_cases[of p s b] place_fields(1,2,3)[of p s b _ p'] by auto


lemma sortBottom_inside:
  assumes "sortBottom p s b = Returns p'"
    and "canStickyBottom (objs p s)" and "stickyContentBottom (objs p s) = Some y"
  shows "contains (doc p') b y"
proof -
  from assms have pl: "addToStickyContainer p s b y = Returns p'" by (simp add: sortBottom_def)
  from place_returns[OF pl] show ?thesis
  proof
    assume "p' = p \<and> children (doc p) b \<noteq> [] \<and> contains (doc p) b y"
    then show ?thesis by simp
  next
    assume "\<exists>d' r. p' = p\<lparr>doc := d'\<rparr> \<and> insertBefore (doc p) b y r = Inr d'"
    then obtain d' r where "p' = p\<lparr>doc := d'\<rparr>" and ins: "insertBefore (doc p) b y r = Inr d'"
      by blast
    with insertBefore_child[OF ins] show ?thesis by (simp add: child_contains)
  qed
qed


lemma sortTop_placed:
  assumes "sortTop st s a = Returns p'"
    and "canStickyTop (objs st s)" and "stickyContentTop (objs st s) = Some x"
    and "stickyAbove st = Some a" and "repsApart st s"
  shows "x \<in> set (children (doc p') a)"
proof -
  from assms(1-3) have pl: "addToStickyContainer st s a x = Returns p'"
    by (simp add: sortTop_def)
  from place_returns[OF pl] show ?thesis
  proof
    assume "p' = st \<and> children (doc st) a \<noteq> [] \<and> contains (doc st) a x"
    with assms(3-5) show ?thesis by (simp add: repsApart_def)
  next
    assume "\<exists>d' r. p' = st\<lparr>doc := d'\<rparr> \<and> insertBefore (doc st) a x r = Inr d'"
    then obtain d' r where "p' = st\<lparr>doc := d'\<rparr>" and ins: "insertBefore (doc st) a x r = Inr d'"
      by blast
    with insertBefore_child[OF ins] show ?thesis by simp
  qed
qed

lemma sortBottom_keeps:
  assumes "sortBottom p s b = Returns p'"
    and "stickyContentBottom (objs p s) \<noteq> Some x"
    and "x \<in> set (children (doc p) a)"
  shows "x \<in> set (children (doc p') a)"
proof -
  from sortBottom_cases[of p s b] show ?thesis
  proof
    assume "sortBottom p s b = Returns p
      \<and> \<not> (canStickyBottom (objs p s) \<and> stickyContentBottom (objs p s) \<noteq> None)"
    with assms(1,3) show ?thesis by simp
  next
    assume "\<exists>y. canStickyBottom (objs p s) \<and> stickyContentBottom (objs p s) = Some y
          \<and> sortBottom p s b = addToStickyContainer p s b y"
    then obtain y where y: "stickyContentBottom (objs p s) = Some y"
      "sortBottom p s b = addToStickyContainer p s b y" by blast
    with assms(1) have pl: "addToStickyContainer p s b y = Returns p'" by simp
    from assms(2) y(1) have "x \<noteq> y" by auto
    from place_keeps_other[OF pl assms(3) this] show ?thesis .
  qed
qed

lemma sortSticky_top_child:
  assumes ret: "sortSticky st s = Returns st'"
    and ab: "stickyAbove st = Some a" "stickyBelow st = Some b"
    and wf: "repsApart st s"
    and cap: "canStickyTop (objs st s)" "stickyContentTop (objs st s) = Some x"
  shows "x \<in> set (children (doc st') a)"
proof (cases "sortTop st s a")
  case (Throws e p)
  with ret show ?thesis by (simp add: sortSticky_steps[OF ab])
next
  case (Returns sa)
  with ret have B: "sortBottom sa s b = Returns st'" by (simp add: sortSticky_steps[OF ab])
  from sortTop_fields[OF Returns] have o: "objs sa = objs st" by simp
  from wf cap(2) have "stickyContentBottom (objs st s) \<noteq> Some x" by (simp add: repsApart_def)
  with o have ne: "stickyContentBottom (objs sa s) \<noteq> Some x" by simp
  from sortBottom_keeps[OF B ne sortTop_placed[OF Returns cap ab(1) wf]] show ?thesis .
qed

lemma sortSticky_bottom_inside:
  assumes ret: "sortSticky st s = Returns st'"
    and ab: "stickyAbove st = Some a" "stickyBelow st = Some b"
    and cap: "canStickyBottom (objs st s)" "stickyContentBottom (objs st s) = Some y"
  shows "contains (doc st') b y"
proof (cases "sortTop st s a")
  case (Throws e p)
  with ret show ?thesis by (simp add: sortSticky_steps[OF ab])
next
  case (Returns sa)
  with ret have B: "sortBottom sa s b = Returns st'" by (simp add: sortSticky_steps[OF ab])
  from sortTop_fields[OF Returns] have o: "objs sa = objs st" by simp
  from sortBottom_inside[OF B] cap o show ?thesis by simp
qed


lemma sortSticky_objs:
  assumes "sortSticky st s = Returns st'"
  shows "objs st' = objs st"
proof (cases "stickyAbove st = None \<or> stickyBelow st = None")
  case True
  with assms show ?thesis by (simp add: sortSticky_unmounted)
next
  case False
  then obtain a b where ab: "stickyAbove st = Some a" "stickyBelow st = Some b" by auto
  show ?thesis
  proof (cases "sortTop st s a")
    case (Throws e p)
    with assms show ?thesis by (simp add: sortSticky_steps[OF ab])
  next
    case (Returns sa)
    with assms have "sortBottom sa s b = Returns st'" by (simp add: sortSticky_steps[OF ab])
    from sortBottom_fields[OF this] sortTop_fields[OF Returns] show ?thesis by simp
  qed
qed

lemma sortSticky_placed:
  assumes ab: "stickyAbove st = Some a" "stickyBelow st = Some b"
    and wf: "repsApart st s"
    and ret: "sortSticky st s = Returns st'"
  shows "(canStickyTop (objs st s) \<and> stickyContentTop (objs st s) = Some x
            \<longrightarrow> x \<in> set (children (doc st') a))
       \<and> (canStickyBottom (objs st s) \<and> stickyContentBottom (objs st s) = Some y
            \<longrightarrow> contains (doc st') b y)
       \<and> isStickyTop (objs st' s) = isStickyTop (objs st s)
       \<and> isStickyBottom (objs st' s) = isStickyBottom (objs st s)"
  using sortSticky_top_child[OF ret ab wf, of x] sortSticky_bottom_inside[OF ret ab, of y]
    sortSticky_objs[OF ret] by simp

lemma measured_fields:
  "stickyAbove (setDistanceFromTop (st\<lparr>stickies := zs\<rparr>) s) = stickyAbove st"
  "stickyBelow (setDistanceFromTop (st\<lparr>stickies := zs\<rparr>) s) = stickyBelow st"
  "doc (setDistanceFromTop (st\<lparr>stickies := zs\<rparr>) s) = doc st"
  "canStickyTop (objs (setDistanceFromTop (st\<lparr>stickies := zs\<rparr>) s) s) = canStickyTop (objs st s)"
  "canStickyBottom (objs (setDistanceFromTop (st\<lparr>stickies := zs\<rparr>) s) s) = canStickyBottom (objs st s)"
  "stickyContentTop (objs (setDistanceFromTop (st\<lparr>stickies := zs\<rparr>) s) s) = stickyContentTop (objs st s)"
  "stickyContentBottom (objs (setDistanceFromTop (st\<lparr>stickies := zs\<rparr>) s) s) = stickyContentBottom (objs st s)"
  "isStickyTop (objs (setDistanceFromTop (st\<lparr>stickies := zs\<rparr>) s) s) = isStickyTop (objs st s)"
  "isStickyBottom (objs (setDistanceFromTop (st\<lparr>stickies := zs\<rparr>) s) s) = isStickyBottom (objs st s)"
  by (simp_all add: setDistanceFromTop_def)

lemma measured_repsApart:
  "repsApart (setDistanceFromTop (st\<lparr>stickies := zs\<rparr>) s) s = repsApart st s"
  by (simp add: repsApart_def measured_fields cong: option.case_cong)

lemma notify_fields:
  "stickyAbove (notifySubscribers st) = stickyAbove st"
  "stickyBelow (notifySubscribers st) = stickyBelow st"
  "doc (notifySubscribers st) = doc st"
  "objs (notifySubscribers st) = objs st"
  "stickies (notifySubscribers st) = stickies st"
  "offsetHeight (notifySubscribers st) = offsetHeight st"
  "contentContainer (notifySubscribers st) = contentContainer st"
  "stickyTopHeight (notifySubscribers st) = stickyTopHeight st"
  "stickyBottomHeight (notifySubscribers st) = stickyBottomHeight st"
  by (simp_all add: notifySubscribers_def split: option.splits)

section \<open>Facts about the reconciliation check and the height pass\<close>

lemma check_only_calls:
  "checkStickyStatus st s = st\<lparr>calls := calls (checkStickyStatus st s)\<rparr>"
  by (simp add: checkStickyStatus_def split: option.splits)

lemma check_calls_grow: "\<exists>cs. calls (checkStickyStatus st s) = calls st @ cs"
  by (simp add: checkStickyStatus_def split: option.splits)

lemma check_frame: "\<exists>cs. checkStickyStatus st s = st\<lparr>calls := calls st @ cs\<rparr>"
proof -
  from check_calls_grow[of st s] obtain cs where "calls (checkStickyStatus st s) = calls st @ cs" ..
  with check_only_calls[of st s] have "checkStickyStatus st s = st\<lparr>calls := calls st @ cs\<rparr>"
    by simp
  then show ?thesis ..
qed

lemma check_unmounted:
  "stickyAbove st = None \<or> stickyBelow st = None \<Longrightarrow> checkStickyStatus st s = st"
  by (cases "stickyAbove st"; cases "stickyBelow st") (auto simp: checkStickyStatus_def)

lemma check_needs_content:
  "nonStickyContent (objs st s) = None \<Longrightarrow> checkStickyStatus st s = st"
  by (simp add: checkStickyStatus_def split: option.splits)

lemma classify_unmounted:
  "stickyAbove st = None \<or> stickyBelow st = None \<Longrightarrow> \<not> checkIfMutationIsSticky st r"
  by (cases "stickyAbove st"; cases "stickyBelow st") (auto simp: checkIfMutationIsSticky_def)

lemma classify_mounted:
  "stickyAbove st = Some a \<Longrightarrow> stickyBelow st = Some b \<Longrightarrow>
   checkIfMutationIsSticky st r
     = (contains (doc st) a (target r) \<or> contains (doc st) b (target r))"
  by (simp add: checkIfMutationIsSticky_def)

lemma renderedHeight_calls [simp]: "renderedHeight (st\<lparr>calls := cs\<rparr>) s = renderedHeight st s"
  by (simp add: renderedHeight_def split: option.splits)

lemma renderedHeight_notify:
  "renderedHeight (notifySubscribers st) s = renderedHeight st s"
  by (simp add: renderedHeight_def notify_fields split: option.splits)

lemma heightStep_parts:
  "\<exists>cs. heightStep s (t, b, st) = (t + topPart st s, b + bottomPart st s, st\<lparr>calls := calls st @ cs\<rparr>)"
proof (cases "nonStickyContent (objs st s)")
  case None
  have "heightStep s (t, b, st) = (t + topPart st s, b + bottomPart st s, st\<lparr>calls := calls st @ []\<rparr>)"
    using None by (simp add: topPart_def bottomPart_def renderedHeight_def)
  then show ?thesis by blast
next
  case (Some n)
  from check_frame[of st s] obtain cs where "checkStickyStatus st s = st\<lparr>calls := calls st @ cs\<rparr>" ..
  with Some have "heightStep s (t, b, st) = (t + topPart st s, b + bottomPart st s, st\<lparr>calls := calls st @ cs\<rparr>)"
    by (simp add: topPart_def bottomPart_def renderedHeight_def)
  then show ?thesis by blast
qed

lemma fold_heightStep:
  "\<exists>cs. fold heightStep xs (t, b, st) =
     (t + sum_list (map (topPart st) xs), b + sum_list (map (bottomPart st) xs),
      st\<lparr>calls := calls st @ cs\<rparr>)"
proof (induction xs arbitrary: t b st)
  case Nil
  have "fold heightStep [] (t, b, st) =
     (t + sum_list (map (topPart st) []), b + sum_list (map (bottomPart st) []),
      st\<lparr>calls := calls st @ []\<rparr>)" by simp
  then show ?case by blast
next
  case (Cons x xs)
  from heightStep_parts[of x t b st] obtain cs where
    step: "heightStep x (t, b, st) = (t + topPart st x, b + bottomPart st x, st\<lparr>calls := calls st @ cs\<rparr>)" ..
  from Cons.IH[where t="t + topPart st x" and b="b + bottomPart st x"
       and st="st\<lparr>calls := calls st @ cs\<rparr>"]
  obtain cs' where
    rest: "fold heightStep xs (t + topPart st x, b + bottomPart st x, st\<lparr>calls := calls st @ cs\<rparr>) =
      (t + topPart st x + sum_list (map (topPart (st\<lparr>calls := calls st @ cs\<rparr>)) xs),
       b + bottomPart st x + sum_list (map (bottomPart (st\<lparr>calls := calls st @ cs\<rparr>)) xs),
       st\<lparr>calls := calls st @ cs, calls := calls (st\<lparr>calls := calls st @ cs\<rparr>) @ cs'\<rparr>)" by blast
  have parts: "topPart (st\<lparr>calls := calls st @ cs\<rparr>) = topPart st"
      "bottomPart (st\<lparr>calls := calls st @ cs\<rparr>) = bottomPart st"
    by (auto simp: topPart_def bottomPart_def)
  have "fold heightStep (x # xs) (t, b, st) =
     (t + sum_list (map (topPart st) (x # xs)), b + sum_list (map (bottomPart st) (x # xs)),
      st\<lparr>calls := calls st @ (cs @ cs')\<rparr>)"
    by (simp add: step rest parts del: heightStep.simps)
  then show ?case by blast
qed

lemma sum_parts:
  "sum_list (map (topPart st) xs) = sum_list (map (renderedHeight st) (filter (\<lambda>s. isStickyTop (objs st s)) xs))"
  "sum_list (map (bottomPart st) xs) = sum_list (map (renderedHeight st) (filter (\<lambda>s. isStickyBottom (objs st s)) xs))"
  by (induction xs) (auto simp: topPart_def bottomPart_def)

lemma notify_frame: "\<exists>cs. notifySubscribers st = st\<lparr>calls := calls st @ cs\<rparr>"
proof (cases "contentContainer st")
  case None
  then have "notifySubscribers st = st\<lparr>calls := calls st @ []\<rparr>"
    by (simp add: notifySubscribers_def)
  then show ?thesis ..
next
  case (Some c)
  then have "notifySubscribers st
      = st\<lparr>calls := calls st @ map (\<lambda>h. Handle h c (stickyBelow st)) (subscribers st)\<rparr>"
    by (simp add: notifySubscribers_def)
  then show ?thesis ..
qed

lemma setState_broadcast:
  "setState st t b =
     (if stickyTopHeight st \<noteq> t \<or> stickyBottomHeight st \<noteq> b
      then notifySubscribers (st\<lparr>stickyTopHeight := t, stickyBottomHeight := b\<rparr>)
      else st)"
  by (auto simp: setState_def shouldComponentUpdate_def componentDidUpdate_def Let_def)

lemma setState_frame:
  "\<exists>cs. setState st t b
     = st\<lparr>calls := calls st @ cs, stickyTopHeight := t, stickyBottomHeight := b\<rparr>"
proof -
  let ?n = "st\<lparr>stickyTopHeight := t, stickyBottomHeight := b\<rparr>"
  from notify_frame[of ?n] obtain cs where n: "notifySubscribers ?n = ?n\<lparr>calls := calls ?n @ cs\<rparr>" ..
  show ?thesis
  proof (cases "stickyTopHeight st \<noteq> t \<or> stickyBottomHeight st \<noteq> b")
    case True
    then have "setState st t b = notifySubscribers ?n"
      by (auto simp: setState_def shouldComponentUpdate_def componentDidUpdate_def Let_def)
    with n have "setState st t b
        = st\<lparr>calls := calls st @ cs, stickyTopHeight := t, stickyBottomHeight := b\<rparr>" by simp
    then show ?thesis ..
  next
    case False
    then have "setState st t b
        = st\<lparr>calls := calls st @ [], stickyTopHeight := t, stickyBottomHeight := b\<rparr>"
      by (simp add: setState_def shouldComponentUpdate_def Let_def)
    then show ?thesis ..
  qed
qed

lemma setState_stickies:
  "setState (st\<lparr>stickies := zs\<rparr>) t b = (setState st t b)\<lparr>stickies := zs\<rparr>"
  by (simp add: setState_def shouldComponentUpdate_def componentDidUpdate_def Let_def
        notifySubscribers_def split: option.splits)

lemma update_result:
  "\<exists>cs. updateStickyRefHeights st =
     st\<lparr>calls := calls st @ cs,
        stickyTopHeight := sum_list (map (renderedHeight st) (filter (\<lambda>s. isStickyTop (objs st s)) (stickies st))),
        stickyBottomHeight := sum_list (map (renderedHeight st) (filter (\<lambda>s. isStickyBottom (objs st s)) (stickies st)))\<rparr>"
proof -
  let ?T = "sum_list (map (topPart st) (stickies st))"
  let ?B = "sum_list (map (bottomPart st) (stickies st))"
  from fold_heightStep[of "stickies st" 0 0 st] obtain cs where
    f: "fold heightStep (stickies st) (0, 0, st) = (0 + ?T, 0 + ?B, st\<lparr>calls := calls st @ cs\<rparr>)" ..
  from setState_frame[of "st\<lparr>calls := calls st @ cs\<rparr>" ?T ?B] obtain cs' where
    s: "setState (st\<lparr>calls := calls st @ cs\<rparr>) ?T ?B
        = st\<lparr>calls := calls st @ cs\<rparr>
            \<lparr>calls := calls (st\<lparr>calls := calls st @ cs\<rparr>) @ cs',
             stickyTopHeight := ?T, stickyBottomHeight := ?B\<rparr>" ..
  from f s have "updateStickyRefHeights st =
     st\<lparr>calls := calls st @ (cs @ cs'),
        stickyTopHeight := sum_list (map (renderedHeight st) (filter (\<lambda>s. isStickyTop (objs st s)) (stickies st))),
        stickyBottomHeight := sum_list (map (renderedHeight st) (filter (\<lambda>s. isStickyBottom (objs st s)) (stickies st)))\<rparr>"
    by (simp add: updateStickyRefHeights_def sum_parts)
  then show ?thesis ..
qed

lemma update_doc: "doc (updateStickyRefHeights st) = doc st"
proof -
  from update_result[of st] obtain cs where
    "updateStickyRefHeights st =
     st\<lparr>calls := calls st @ cs,
        stickyTopHeight := sum_list (map (renderedHeight st) (filter (\<lambda>s. isStickyTop (objs st s)) (stickies st))),
        stickyBottomHeight := sum_list (map (renderedHeight st) (filter (\<lambda>s. isStickyBottom (objs st s)) (stickies st)))\<rparr>" ..
  then show ?thesis by simp
qed

lemma renderedHeight_heights [simp]:
  "renderedHeight (st\<lparr>stickyTopHeight := t0, stickyBottomHeight := b0\<rparr>) s = renderedHeight st s"
  by (simp add: renderedHeight_def split: option.splits)

lemma update_result_top:
  "stickyTopHeight (updateStickyRefHeights st)
     = sum_list (map (renderedHeight st) (filter (\<lambda>s. isStickyTop (objs st s)) (stickies st)))"
  "stickyBottomHeight (updateStickyRefHeights st)
     = sum_list (map (renderedHeight st) (filter (\<lambda>s. isStickyBottom (objs st s)) (stickies st)))"
proof -
  from update_result[of st] obtain cs where
    "updateStickyRefHeights st =
     st\<lparr>calls := calls st @ cs,
        stickyTopHeight := sum_list (map (renderedHeight st) (filter (\<lambda>s. isStickyTop (objs st s)) (stickies st))),
        stickyBottomHeight := sum_list (map (renderedHeight st) (filter (\<lambda>s. isStickyBottom (objs st s)) (stickies st)))\<rparr>" ..
  then show "stickyTopHeight (updateStickyRefHeights st)
     = sum_list (map (renderedHeight st) (filter (\<lambda>s. isStickyTop (objs st s)) (stickies st)))"
    "stickyBottomHeight (updateStickyRefHeights st)
     = sum_list (map (renderedHeight st) (filter (\<lambda>s. isStickyBottom (objs st s)) (stickies st)))"
    by simp_all
qed

lemma update_calls_grow:
  "take (length (calls st)) (calls (updateStickyRefHeights st)) = calls st"
proof -
  from update_result[of st] obtain cs where
    "updateStickyRefHeights st =
     st\<lparr>calls := calls st @ cs,
        stickyTopHeight := sum_list (map (renderedHeight st) (filter (\<lambda>s. isStickyTop (objs st s)) (stickies st))),
        stickyBottomHeight := sum_list (map (renderedHeight st) (filter (\<lambda>s. isStickyBottom (objs st s)) (stickies st)))\<rparr>" ..
  then have "calls (updateStickyRefHeights st) = calls st @ cs" by simp
  then show ?thesis by simp
qed

lemma check_stickies:
  "checkStickyStatus (st\<lparr>stickies := zs\<rparr>) s = (checkStickyStatus st s)\<lparr>stickies := zs\<rparr>"
  by (simp add: checkStickyStatus_def split: option.splits)

lemma heightStep_stickies:
  "heightStep s (t, b, st\<lparr>stickies := zs\<rparr>) =
   (case heightStep s (t, b, st) of (t', b', p) \<Rightarrow> (t', b', p\<lparr>stickies := zs\<rparr>))"
  by (simp add: check_stickies split: option.splits)

lemma fold_stickies:
  "fold heightStep xs (t, b, st\<lparr>stickies := zs\<rparr>) =
   (case fold heightStep xs (t, b, st) of (t', b', p) \<Rightarrow> (t', b', p\<lparr>stickies := zs\<rparr>))"
proof (induction xs arbitrary: t b st)
  case Nil
  then show ?case by simp
next
  case (Cons x xs)
  obtain t' b' p where step: "heightStep x (t, b, st) = (t', b', p)"
    by (cases "heightStep x (t, b, st)") auto
  with heightStep_stickies[where s=x and t=t and b=b and st=st and zs=zs]
  have "heightStep x (t, b, st\<lparr>stickies := zs\<rparr>) = (t', b', p\<lparr>stickies := zs\<rparr>)" by simp
  with step Cons.IH[where t=t' and b=b' and st=p] show ?case by (simp del: heightStep.simps)
qed

lemma heightStep_objs:
  "heightStep x (t, b, st) = (t', b', p) \<Longrightarrow> objs p = objs st"
  using heightStep_parts[of x t b st] by auto

lemma fold_skip:
  "nonStickyContent (objs st s) = None \<Longrightarrow>
   fold heightStep (removeAll s xs) (t, b, st) = fold heightStep xs (t, b, st)"
proof (induction xs arbitrary: t b st)
  case Nil
  then show ?case by simp
next
  case (Cons x xs)
  show ?case
  proof (cases "x = s")
    case True
    with Cons.prems have "heightStep x (t, b, st) = (t, b, st)" by simp
    with True Cons.IH[OF Cons.prems, of t b] show ?thesis by (simp del: heightStep.simps)
  next
    case False
    obtain t' b' p where step: "heightStep x (t, b, st) = (t', b', p)"
      by (cases "heightStep x (t, b, st)") auto
    from heightStep_objs[OF step] Cons.prems have "nonStickyContent (objs p s) = None" by simp
    from Cons.IH[OF this, of t' b'] step False show ?thesis by (simp del: heightStep.simps)
  qed
qed

section \<open>The pin flags do not steer the pane\<close>

text \<open>
  No operation of the pane reads \<^verbatim>\<open>isStickyTop\<close> or \<^verbatim>\<open>isStickyBottom\<close> when it
  inserts or removes an element: placing, sorting, adding and removing commute with a
  change of the two flags of any region.
\<close>

lemma stateOf_overState: "stateOf (overState f r) = f (stateOf r)"
  by (cases r) simp_all

lemma setPinned_fields:
  "stickies (setPinned st i t b) = stickies st"
  "subscribers (setPinned st i t b) = subscribers st"
  "stickyAbove (setPinned st i t b) = stickyAbove st"
  "stickyBelow (setPinned st i t b) = stickyBelow st"
  "contentContainer (setPinned st i t b) = contentContainer st"
  "doc (setPinned st i t b) = doc st"
  "calls (setPinned st i t b) = calls st"
  "canStickyTop (objs (setPinned st i t b) j) = canStickyTop (objs st j)"
  "canStickyBottom (objs (setPinned st i t b) j) = canStickyBottom (objs st j)"
  "stickyContentTop (objs (setPinned st i t b) j) = stickyContentTop (objs st j)"
  "stickyContentBottom (objs (setPinned st i t b) j) = stickyContentBottom (objs st j)"
  "distanceFromTop (objs (setPinned st i t b) j) = distanceFromTop (objs st j)"
  by (simp_all add: setPinned_def)

lemma setPinned_doc: "setPinned (st\<lparr>doc := d\<rparr>) i t b = (setPinned st i t b)\<lparr>doc := d\<rparr>"
  by (simp add: setPinned_def)

lemma setPinned_stickies:
  "(setPinned st i t b)\<lparr>stickies := zs\<rparr> = setPinned (st\<lparr>stickies := zs\<rparr>) i t b"
  by (simp add: setPinned_def)

lemma edge_setPinned: "edgeContent (setPinned st i t b) c j = edgeContent st c j"
  by (simp add: edgeContent_def setPinned_fields)

lemma target_setPinned:
  "targetStickyToAppendBefore (setPinned st i t b) s c = targetStickyToAppendBefore st s c"
  by (simp add: targetStickyToAppendBefore_def stickyListSorted_def stickyList_def
        setPinned_fields edge_setPinned cong: option.case_cong)

lemma domCall_setPinned:
  "domCall (setPinned st i t b) r = overState (\<lambda>p. setPinned p i t b) (domCall st r)"
  by (cases r) (simp_all add: domCall_def setPinned_doc)

lemma place_setPinned:
  "addToStickyContainer (setPinned st i t b) s c x
     = overState (\<lambda>p. setPinned p i t b) (addToStickyContainer st s c x)"
  by (simp add: addToStickyContainer_def setPinned_fields edge_setPinned target_setPinned
        domCall_setPinned Let_def cong: option.case_cong)

lemma andThen_overState:
  assumes "\<And>p. g (f p) = overState f (h p)"
  shows "andThen (overState f r) g = overState f (andThen r h)"
  using assms by (cases r) simp_all

lemma sortSticky_setPinned:
  "sortSticky (setPinned st i t b) s = overState (\<lambda>p. setPinned p i t b) (sortSticky st s)"
proof (cases "stickyAbove st")
  case None
  then show ?thesis by (simp add: sortSticky_def setPinned_fields)
next
  case (Some a)
  show ?thesis
  proof (cases "stickyBelow st")
    case None
    with Some show ?thesis by (simp add: sortSticky_def setPinned_fields)
  next
    case (Some bl)
    have top: "sortTop (setPinned st i t b) s a = overState (\<lambda>p. setPinned p i t b) (sortTop st s a)"
      by (simp add: sortTop_def setPinned_fields place_setPinned split: option.splits bool.splits)
    have bot: "sortBottom (setPinned p i t b) s bl = overState (\<lambda>p. setPinned p i t b) (sortBottom p s bl)"
      for p
      by (simp add: sortBottom_def setPinned_fields place_setPinned split: option.splits bool.splits)
    have "sortSticky (setPinned st i t b) s
        = andThen (sortTop (setPinned st i t b) s a) (\<lambda>p. sortBottom p s bl)"
      using \<open>stickyAbove st = Some a\<close> Some
      by (simp add: sortSticky_def sortTop_def sortBottom_def setPinned_fields)
    also have "\<dots> = overState (\<lambda>p. setPinned p i t b) (andThen (sortTop st s a) (\<lambda>p. sortBottom p s bl))"
      unfolding top by (rule andThen_overState) (rule bot)
    also have "andThen (sortTop st s a) (\<lambda>p. sortBottom p s bl) = sortSticky st s"
      using \<open>stickyAbove st = Some a\<close> Some
      by (simp add: sortSticky_def sortTop_def sortBottom_def)
    finally show ?thesis .
  qed
qed

lemma notify_setPinned:
  "notifySubscribers (setPinned st i t b) = setPinned (notifySubscribers st) i t b"
  by (simp add: notifySubscribers_def setPinned_def split: option.splits)

lemma measure_setPinned:
  "setDistanceFromTop (setPinned st i t b\<lparr>stickies := zs\<rparr>) s
     = setPinned (setDistanceFromTop (st\<lparr>stickies := zs\<rparr>) s) i t b"
  by (auto simp: setDistanceFromTop_def setPinned_def fun_eq_iff)

lemma addSticky_setPinned:
  "addSticky (setPinned st i t b) s = overState (\<lambda>p. setPinned p i t b) (addSticky st s)"
proof (cases "contentContainer st")
  case None
  then show ?thesis
    by (simp add: addSticky_def Let_def setPinned_fields setPinned_stickies notify_setPinned)
next
  case (Some c)
  have "addSticky (setPinned st i t b) s
      = andThen (sortSticky (setPinned (setDistanceFromTop (st\<lparr>stickies := setAdd s (stickies st)\<rparr>) s) i t b) s)
          (\<lambda>p. Returns (notifySubscribers p))"
    using Some by (simp add: addSticky_def Let_def setPinned_fields measure_setPinned)
  also have "\<dots> = overState (\<lambda>p. setPinned p i t b)
        (andThen (sortSticky (setDistanceFromTop (st\<lparr>stickies := setAdd s (stickies st)\<rparr>) s) s)
           (\<lambda>p. Returns (notifySubscribers p)))"
    unfolding sortSticky_setPinned by (rule andThen_overState) (simp add: notify_setPinned)
  also have "andThen (sortSticky (setDistanceFromTop (st\<lparr>stickies := setAdd s (stickies st)\<rparr>) s) s)
           (\<lambda>p. Returns (notifySubscribers p)) = addSticky st s"
    using Some by (simp add: addSticky_def Let_def)
  finally show ?thesis .
qed

lemma removeFrom_setPinned:
  "removeStickyFromContainers (setPinned st i t b) s
     = overState (\<lambda>p. setPinned p i t b) (removeStickyFromContainers st s)"
proof -
  have top: "(case (stickyAbove (setPinned st i t b), stickyContentTop (objs (setPinned st i t b) s)) of
          (Some sAbove, Some x) \<Rightarrow> domCall (setPinned st i t b) (removeChild (doc (setPinned st i t b)) sAbove x)
        | _ \<Rightarrow> Returns (setPinned st i t b))
      = overState (\<lambda>p. setPinned p i t b)
         (case (stickyAbove st, stickyContentTop (objs st s)) of
            (Some sAbove, Some x) \<Rightarrow> domCall st (removeChild (doc st) sAbove x)
          | _ \<Rightarrow> Returns st)"
    by (simp add: setPinned_fields domCall_setPinned split: option.splits)
  have bot: "(case (stickyBelow (setPinned p i t b), stickyContentBottom (objs (setPinned p i t b) s)) of
          (Some sBelow, Some y) \<Rightarrow> domCall (setPinned p i t b) (removeChild (doc (setPinned p i t b)) sBelow y)
        | _ \<Rightarrow> Returns (setPinned p i t b))
      = overState (\<lambda>p. setPinned p i t b)
         (case (stickyBelow p, stickyContentBottom (objs p s)) of
            (Some sBelow, Some y) \<Rightarrow> domCall p (removeChild (doc p) sBelow y)
          | _ \<Rightarrow> Returns p)" for p
    by (simp add: setPinned_fields domCall_setPinned split: option.splits)
  show ?thesis
    unfolding removeStickyFromContainers_def top
    by (rule andThen_overState) (rule bot)
qed

lemma removeSticky_setPinned:
  "removeSticky (setPinned st i t b) s = overState (\<lambda>p. setPinned p i t b) (removeSticky st s)"
proof -
  have "removeSticky (setPinned st i t b) s
      = andThen (removeStickyFromContainers (setPinned (st\<lparr>stickies := setDelete s (stickies st)\<rparr>) i t b) s)
          (\<lambda>p. Returns (notifySubscribers p))"
    by (simp add: removeSticky_def setPinned_fields setPinned_stickies)
  also have "\<dots> = overState (\<lambda>p. setPinned p i t b)
       (andThen (removeStickyFromContainers (st\<lparr>stickies := setDelete s (stickies st)\<rparr>) s)
          (\<lambda>p. Returns (notifySubscribers p)))"
    unfolding removeFrom_setPinned by (rule andThen_overState) (simp add: notify_setPinned)
  finally show ?thesis by (simp add: removeSticky_def)
qed

lemma doc_any_flags:
  "doc (stateOf (perform (setPinned st i t b) op)) = doc (stateOf (perform st op))"
proof (cases op)
  case (AddSticky s)
  then show ?thesis by (simp add: addSticky_setPinned stateOf_overState setPinned_fields)
next
  case (RemoveSticky s)
  then show ?thesis by (simp add: removeSticky_setPinned stateOf_overState setPinned_fields)
next
  case (SortSticky s)
  then show ?thesis by (simp add: sortSticky_setPinned stateOf_overState setPinned_fields)
next
  case UpdateStickyRefHeights
  then show ?thesis by (simp add: update_doc setPinned_fields)
next
  case NotifySubscribers
  then show ?thesis by (simp add: notify_fields setPinned_fields)
qed

text \<open>After a \<^verbatim>\<open>removeSticky\<close> that returned, neither representation is a child.\<close>

lemma removed_not_child:
  assumes ret: "removeSticky st s = Returns st'"
  shows "stickyAbove st = Some a \<Longrightarrow> stickyContentTop (objs st s) = Some x
           \<Longrightarrow> x \<notin> set (children (doc st') a)"
    and "stickyBelow st = Some b \<Longrightarrow> stickyContentBottom (objs st s) = Some y
           \<Longrightarrow> y \<notin> set (children (doc st') b)"
proof -
  let ?q = "st\<lparr>stickies := setDelete s (stickies st)\<rparr>"
  from ret obtain p where p: "removeStickyFromContainers ?q s = Returns p"
    and st': "st' = notifySubscribers p"
    by (cases "removeStickyFromContainers ?q s") (auto simp: removeSticky_def)
  let ?top = "case (stickyAbove ?q, stickyContentTop (objs ?q s)) of
          (Some sAbove, Some x) \<Rightarrow> domCall ?q (removeChild (doc ?q) sAbove x)
        | _ \<Rightarrow> Returns ?q"
  from p obtain p1 where p1: "?top = Returns p1"
    and p2: "(case (stickyBelow p1, stickyContentBottom (objs p1 s)) of
            (Some sBelow, Some y) \<Rightarrow> domCall p1 (removeChild (doc p1) sBelow y)
          | _ \<Rightarrow> Returns p1) = Returns p"
    by (cases ?top) (auto simp: removeStickyFromContainers_def)
  have f1: "stickyBelow p1 = stickyBelow st" "objs p1 = objs st"
    using p1 by (auto simp: domCall_def split: option.splits sum.splits)
  have dp: "doc p = doc p1 \<or> (\<exists>z. doc p = detach (doc p1) z)"
    using p2 by (auto simp: domCall_def removeChild_def split: option.splits sum.splits if_splits)
  { assume a: "stickyAbove st = Some a" and x: "stickyContentTop (objs st s) = Some x"
    with p1 have "doc p1 = detach (doc st) x"
      by (auto simp: domCall_def removeChild_def split: if_splits)
    then have "x \<notin> set (children (doc p1) a)" by (simp add: children_detach)
    with dp have "x \<notin> set (children (doc p) a)" by (auto simp: children_detach)
    then show "x \<notin> set (children (doc st') a)" by (simp add: st' notify_fields) }
  { assume b: "stickyBelow st = Some b" and y: "stickyContentBottom (objs st s) = Some y"
    with p2 f1 have "doc p = detach (doc p1) y"
      by (auto simp: domCall_def removeChild_def split: if_splits)
    then have "y \<notin> set (children (doc p) b)" by (simp add: children_detach)
    then show "y \<notin> set (children (doc st') b)" by (simp add: st' notify_fields) }
qed

section \<open>The refs stay\<close>

text \<open>
  No operation of the pane, and not the observer's callback, assigns
  \<^verbatim>\<open>stickyAbove\<close>, \<^verbatim>\<open>stickyBelow\<close> or \<^verbatim>\<open>contentContainer\<close>: a pane that has
  them keeps them.
\<close>

lemma domCall_refs:
  "stickyAbove (stateOf (domCall st r)) = stickyAbove st"
  "stickyBelow (stateOf (domCall st r)) = stickyBelow st"
  "contentContainer (stateOf (domCall st r)) = contentContainer st"
  "objs (stateOf (domCall st r)) = objs st"
  by (cases r; simp add: domCall_def)+

lemma place_refs:
  "stickyAbove (stateOf (addToStickyContainer st s c x)) = stickyAbove st"
  "stickyBelow (stateOf (addToStickyContainer st s c x)) = stickyBelow st"
  "contentContainer (stateOf (addToStickyContainer st s c x)) = contentContainer st"
  "objs (stateOf (addToStickyContainer st s c x)) = objs st"
  by (simp_all add: addToStickyContainer_def domCall_refs Let_def)

lemma sortSticky_refs:
  "stickyAbove (stateOf (sortSticky st s)) = stickyAbove st"
  "stickyBelow (stateOf (sortSticky st s)) = stickyBelow st"
  "contentContainer (stateOf (sortSticky st s)) = contentContainer st"
proof -
  have "stickyAbove (stateOf (sortSticky st s)) = stickyAbove st
    \<and> stickyBelow (stateOf (sortSticky st s)) = stickyBelow st
    \<and> contentContainer (stateOf (sortSticky st s)) = contentContainer st"
  proof (cases "stickyAbove st")
    case None
    then show ?thesis by (simp add: sortSticky_def)
  next
    case (Some a)
    show ?thesis
    proof (cases "stickyBelow st")
      case None
      with Some show ?thesis by (simp add: sortSticky_def)
    next
      case (Some b)
      have t: "stickyAbove (stateOf (sortTop st s a)) = stickyAbove st"
        "stickyBelow (stateOf (sortTop st s a)) = stickyBelow st"
        "contentContainer (stateOf (sortTop st s a)) = contentContainer st"
        by (simp_all add: sortTop_def place_refs split: option.splits bool.splits)
      have bt: "stickyAbove (stateOf (sortBottom p s b)) = stickyAbove p"
        "stickyBelow (stateOf (sortBottom p s b)) = stickyBelow p"
        "contentContainer (stateOf (sortBottom p s b)) = contentContainer p" for p
        by (simp_all add: sortBottom_def place_refs split: option.splits bool.splits)
      have "sortSticky st s = andThen (sortTop st s a) (\<lambda>p. sortBottom p s b)"
        using \<open>stickyAbove st = Some a\<close> Some
        by (simp add: sortSticky_def sortTop_def sortBottom_def)
      then show ?thesis using t bt by (cases "sortTop st s a") simp_all
    qed
  qed
  then show "stickyAbove (stateOf (sortSticky st s)) = stickyAbove st"
    "stickyBelow (stateOf (sortSticky st s)) = stickyBelow st"
    "contentContainer (stateOf (sortSticky st s)) = contentContainer st" by simp_all
qed

lemma addSticky_refs:
  "stickyAbove (stateOf (addSticky st s)) = stickyAbove st"
  "stickyBelow (stateOf (addSticky st s)) = stickyBelow st"
  "contentContainer (stateOf (addSticky st s)) = contentContainer st"
proof -
  let ?q = "setDistanceFromTop (st\<lparr>stickies := setAdd s (stickies st)\<rparr>) s"
  have q: "stickyAbove ?q = stickyAbove st" "stickyBelow ?q = stickyBelow st"
    "contentContainer ?q = contentContainer st"
    by (simp_all add: setDistanceFromTop_def)
  have "stickyAbove (stateOf (addSticky st s)) = stickyAbove st
    \<and> stickyBelow (stateOf (addSticky st s)) = stickyBelow st
    \<and> contentContainer (stateOf (addSticky st s)) = contentContainer st"
  proof (cases "contentContainer st")
    case None
    then show ?thesis by (simp add: addSticky_def Let_def notify_fields)
  next
    case (Some c)
    then have "addSticky st s = andThen (sortSticky ?q s) (\<lambda>p. Returns (notifySubscribers p))"
      by (simp add: addSticky_def Let_def)
    then show ?thesis using sortSticky_refs[of ?q s] q
      by (cases "sortSticky ?q s") (simp_all add: notify_fields)
  qed
  then show "stickyAbove (stateOf (addSticky st s)) = stickyAbove st"
    "stickyBelow (stateOf (addSticky st s)) = stickyBelow st"
    "contentContainer (stateOf (addSticky st s)) = contentContainer st" by simp_all
qed

lemma removeSticky_refs:
  "stickyAbove (stateOf (removeSticky st s)) = stickyAbove st"
  "stickyBelow (stateOf (removeSticky st s)) = stickyBelow st"
  "contentContainer (stateOf (removeSticky st s)) = contentContainer st"
  by (auto simp: removeSticky_def removeStickyFromContainers_def domCall_def notify_fields
        split: option.splits sum.splits)

lemma update_refs:
  "stickyAbove (updateStickyRefHeights st) = stickyAbove st"
  "stickyBelow (updateStickyRefHeights st) = stickyBelow st"
  "contentContainer (updateStickyRefHeights st) = contentContainer st"
proof -
  from update_result[of st] obtain cs where
    "updateStickyRefHeights st =
     st\<lparr>calls := calls st @ cs,
        stickyTopHeight := sum_list (map (renderedHeight st) (filter (\<lambda>s. isStickyTop (objs st s)) (stickies st))),
        stickyBottomHeight := sum_list (map (renderedHeight st) (filter (\<lambda>s. isStickyBottom (objs st s)) (stickies st)))\<rparr>" ..
  then show "stickyAbove (updateStickyRefHeights st) = stickyAbove st"
    "stickyBelow (updateStickyRefHeights st) = stickyBelow st"
    "contentContainer (updateStickyRefHeights st) = contentContainer st" by simp_all
qed

lemma refs_kept:
  "stickyAbove (stateOf (perform st op)) = stickyAbove st"
  "stickyBelow (stateOf (perform st op)) = stickyBelow st"
  "contentContainer (stateOf (perform st op)) = contentContainer st"
  by (cases op; simp add: addSticky_refs removeSticky_refs sortSticky_refs update_refs notify_fields)+

lemma callback_refs:
  "stickyAbove (stateOf (mutationCallback st batch)) = stickyAbove st"
  "stickyBelow (stateOf (mutationCallback st batch)) = stickyBelow st"
  "contentContainer (stateOf (mutationCallback st batch)) = contentContainer st"
  by (simp_all add: mutationCallback_def Let_def update_refs notify_fields split: list.splits)

section \<open>The example panes, evaluated\<close>

lemmas dom_defs = children_def contains_def detach_def nextSibling_def placeBefore_def
  insertBefore_def appendChild_def removeChild_def

lemmas pane_defs = domCall_def setAdd_def setDelete_def notifySubscribers_def
  setDistanceFromTop_def edgeContent_def stickyList_def stickyListSorted_def
  targetStickyToAppendBefore_def addToStickyContainer_def sortSticky_def addSticky_def
  removeStickyFromContainers_def removeSticky_def checkStickyStatus_def
  shouldComponentUpdate_def componentDidUpdate_def setState_def
  updateStickyRefHeights_def checkIfMutationIsSticky_def mutationCallback_def

lemmas example_defs = mkSticky_def pane0_def paneAB_def paneCap_def paneCapAt1_def
  paneOne_def panePinned_def paneHalf_def paneFlow_def paneNoContent_def paneThree_def
  paneTwo_def paneNested_def paneLate_def paneMoved_def paneSettled_def
  setPinned_def setCanStickyTop_def

lemma pane0_fields:
  "stickyAbove pane0 = Some 2" "stickyBelow pane0 = Some 3" "contentContainer pane0 = Some 1"
  "stickies pane0 = []" "subscribers pane0 = [7]" "calls pane0 = []"
  "canStickyTop (objs pane0 0)" "stickyContentTop (objs pane0 0) = Some 11"
  "stickyContentBottom (objs pane0 0) = None" "\<not> isStickyTop (objs pane0 0)"
  "canStickyTop (objs pane0 2)" "stickyContentTop (objs pane0 2) = Some 31"
  "canStickyBottom (objs pane0 2)" "stickyContentBottom (objs pane0 2) = Some 32"
  "\<not> isStickyTop (objs pane0 2)" "\<not> isStickyBottom (objs pane0 2)"
  "children (doc pane0) 2 = []" "children (doc pane0) 3 = []"
  by (simp_all add: example_defs dom_defs)

lemma pane0_repsApart: "repsApart pane0 0" "repsApart pane0 2"
  by (simp_all add: repsApart_def example_defs dom_defs)



lemma add_pane0_2: "addSticky pane0 2 = Returns (stateOf (addSticky pane0 2))"
  by (simp add: example_defs pane_defs dom_defs)

lemma paneHalf_fields:
  "stickyAbove paneHalf = Some 2" "stickyBelow paneHalf = None"
  "contentContainer paneHalf = Some 1"
  "stickies paneHalf = [0]" "subscribers paneHalf = [7]"
  "doc paneHalf = [(0, [1, 2, 4]), (4, [3]), (1, [10, 20, 30]), (10, [13]),
       (20, [21, 23]), (30, [31, 32, 33]), (2, [11])]"
  "isStickyTop (objs paneHalf 0)" "nonStickyContent (objs paneHalf 0) = Some 13"
  "root (objs paneHalf 0) = Some 10"
  "canStickyTop (objs paneHalf (Suc 0))" "stickyContentTop (objs paneHalf (Suc 0)) = Some 21"
  "offsetHeight paneHalf 13 = 40"
  "stickyTopHeight paneHalf = 0"
  by (simp_all add: example_defs pane_defs dom_defs)

lemma paneThree_fields:
  "stickies paneThree = [0, 1, 2]"
  "isStickyTop (objs paneThree 0)" "\<not> isStickyBottom (objs paneThree 0)"
  "\<not> isStickyTop (objs paneThree (Suc 0))" "\<not> isStickyBottom (objs paneThree (Suc 0))"
  "isStickyTop (objs paneThree 2)" "isStickyBottom (objs paneThree 2)"
  "renderedHeight paneThree 0 = 40" "renderedHeight paneThree (Suc 0) = 25" "renderedHeight paneThree 2 = 10"
  by (simp_all add: example_defs pane_defs dom_defs renderedHeight_def)

lemma paneThree_more:
  "stickyAbove paneThree = Some 2" "stickyBelow paneThree = Some 3"
  "contentContainer paneThree = Some 1" "subscribers paneThree = [7]"
  "doc paneThree = [(0, [1, 2, 4]), (4, [3]), (1, [10, 20, 30]), (10, [13]), (20, [23]),
        (30, [33]), (2, [21, 31, 11]), (3, [32])]"
  "root (objs paneThree 0) = Some 10" "root (objs paneThree (Suc 0)) = Some 20"
  "root (objs paneThree 2) = Some 30"
  "stickyTopHeight paneThree = 0" "stickyBottomHeight paneThree = 0"
  by (simp_all add: example_defs pane_defs dom_defs)

lemma paneThree_pass:
  "issued paneThree (updateStickyRefHeights (notifySubscribers paneThree))
     = [Handle 7 1 (Some 3), StickyAddSticky 0 11, StickyAddSticky 2 31, StickyAddSticky 2 32,
        Handle 7 1 (Some 3)]"
  by (simp add: issued_def example_defs pane_defs dom_defs)

lemma paneTwo_fields:
  "stickyAbove paneTwo = Some 2" "stickyBelow paneTwo = Some 3"
  "stickyContentTop (objs paneTwo 2) = Some 31" "stickyContentBottom (objs paneTwo 2) = Some 32"
  "children (doc paneTwo) 2 = [31]" "children (doc paneTwo) 3 = [32]"
  "\<not> isStickyTop (objs paneTwo 2)" "\<not> isStickyBottom (objs paneTwo 2)"
  "repsApart paneTwo 2"
  "removeSticky paneTwo 2 = Returns (stateOf (removeSticky paneTwo 2))"
  "children (doc (stateOf (removeSticky paneTwo 2))) 2 = []"
  "children (doc (stateOf (removeSticky paneTwo 2))) 3 = []"
  by (simp_all add: paneTwo_def repsApart_def example_defs pane_defs dom_defs)







section \<open>The order of the pinned containers\<close>

text \<open>
  Without ties in distance the insertion point that \<^verbatim>\<open>_addToStickyContainer\<close> finds
  is the right one: on a regular pane the candidate list is the list of owners of the
  container's children (both are sorted by a key without ties), so the element goes in
  before the first owner at a greater distance.
\<close>

lemma sorted_key_unique:
  assumes "sorted (map f xs)" and "sorted (map f ys)" and "distinct xs" and "distinct ys"
    and "set xs = set ys" and "inj_on f (set xs)"
  shows "xs = ys"
proof -
  from assms(3,6) have dx: "distinct (map f xs)" by (simp add: distinct_map)
  from assms(4,5,6) have dy: "distinct (map f ys)" by (simp add: distinct_map)
  from assms(5) have "set (map f xs) = set (map f ys)" by simp
  from sorted_distinct_set_unique[OF assms(1) dx assms(2) dy this]
  have "map f xs = map f ys" .
  with assms(5,6) show ?thesis by (simp add: inj_on_map_eq_map)
qed

lemma find_split:
  "find P xs = None \<Longrightarrow> \<forall>x \<in> set xs. \<not> P x"
  "find P xs = Some t \<Longrightarrow> \<exists>pre post. xs = pre @ t # post \<and> P t \<and> (\<forall>x \<in> set pre. \<not> P x)"
proof -
  show "find P xs = None \<Longrightarrow> \<forall>x \<in> set xs. \<not> P x" by (simp add: find_None_iff)
  assume "find P xs = Some t"
  then obtain i where i: "i < length xs" "P (xs ! i)" "t = xs ! i" "\<forall>j<i. \<not> P (xs ! j)"
    by (auto simp: find_Some_iff)
  have "xs = take i xs @ t # drop (Suc i) xs" using i(1,3) by (simp add: id_take_nth_drop)
  moreover have "\<forall>x \<in> set (take i xs). \<not> P x"
    using i(1,4) by (auto simp: in_set_conv_nth)
  ultimately show "\<exists>pre post. xs = pre @ t # post \<and> P t \<and> (\<forall>x \<in> set pre. \<not> P x)"
    using i(2,3) by blast
qed

lemma find_the_one:
  assumes "i \<in> set xs" and "P i" and "\<forall>j \<in> set xs. P j \<longrightarrow> j = i"
  shows "find P xs = Some i"
proof -
  from assms(1,2) have "find P xs \<noteq> None" by (auto simp: find_None_iff)
  then obtain j where j: "find P xs = Some j" by auto
  then have "P j" "j \<in> set xs" by (auto simp: find_Some_iff)
  with assms(3) j show ?thesis by auto
qed

lemma placeBefore_mid:
  "k \<notin> set pre \<Longrightarrow> placeBefore x (Some k) (pre @ k # post) = pre @ x # k # post"
  by (induction pre) (auto simp: placeBefore_def)

lemma children_insert_other:
  "insertBefore d c x r = Inr d' \<Longrightarrow> c2 \<noteq> c \<Longrightarrow> children d' c2 = removeAll x (children d c2)"
  by (auto simp: insertBefore_def Let_def children_update children_detach split: if_splits)

lemma children_insert_same:
  assumes "insertBefore d c x r = Inr d'" and "x \<notin> set (children d c)"
  shows "children d' c = placeBefore x r (children d c)"
proof -
  from assms have "r \<noteq> Some x" by (auto simp: insertBefore_def split: if_splits)
  with assms show ?thesis
    by (auto simp: insertBefore_def Let_def children_update children_detach split: if_splits)
qed

lemma regular_keys:
  assumes "regular p S"
  shows "inj_on (\<lambda>i. distanceFromTop (objs p i)) (set (stickies p))"
proof (rule inj_onI)
  fix i j assume ij: "i \<in> set (stickies p)" "j \<in> set (stickies p)"
    and eq: "distanceFromTop (objs p i) = distanceFromTop (objs p j)"
  from assms ij have "layoutTop p i = layoutTop p j" using eq by (simp add: regular_def)
  moreover from assms ij have "i \<in> S" "j \<in> S" by (auto simp: regular_def)
  moreover from assms have "inj_on (layoutTop p) S" by (simp add: regular_def)
  ultimately show "i = j" by (auto dest: inj_onD)
qed

lemma tidy_candidates:
  assumes reg: "regular p S" and t: "tidy p c os"
    and all: "stickyList p s c = stickies p"
    and own: "ownsOne p c"
  shows "stickyListSorted p s c = os"
proof -
  have inj: "i = j" if "i \<in> set (stickies p)" "j \<in> set (stickies p)"
      "edgeContent p c i = Some k" "edgeContent p c j = Some k" for i j k
    using own that unfolding ownsOne_def by blast
  let ?key = "\<lambda>i. distanceFromTop (objs p i)"
  let ?present = "\<lambda>item. case edgeContent p c item of None \<Rightarrow> False
      | Some stickyContent \<Rightarrow> stickyContent \<in> set (children (doc p) c)"
  let ?cs = "filter ?present (sort_key ?key (stickies p))"
  from reg have dR: "distinct (stickies p)" by (simp add: regular_def)
  from t have os: "distinct os" "set os \<subseteq> set (stickies p)"
    "\<forall>i \<in> set os. edgeContent p c i \<noteq> None"
    "children (doc p) c = map (repOf p c) os" "sorted (map ?key os)"
    by (simp_all add: tidy_def)
  have rep: "edgeContent p c i = Some (repOf p c i)" if "i \<in> set os" for i
    using os(3) that by (auto simp: repOf_def)
  have "set ?cs = set os"
  proof (intro set_eqI iffI)
    fix i assume "i \<in> set ?cs"
    then have iR: "i \<in> set (stickies p)" and pr: "?present i" by auto
    from pr obtain k where k: "edgeContent p c i = Some k" "k \<in> set (children (doc p) c)"
      by (cases "edgeContent p c i") auto
    from k(2) os(4) obtain j where j: "j \<in> set os" "k = repOf p c j" by auto
    from rep[OF j(1)] j(2) have "edgeContent p c j = Some k" by simp
    from inj[OF iR _ k(1) this] j(1) os(2) have "i = j" by auto
    with j(1) show "i \<in> set os" by simp
  next
    fix i assume i: "i \<in> set os"
    from rep[OF i] os(4) i have "?present i" by simp
    with i os(2) show "i \<in> set ?cs" by auto
  qed
  moreover have "sorted (map ?key ?cs)" by (simp add: sorted_filter)
  moreover have "distinct ?cs" using dR by simp
  moreover have "inj_on ?key (set ?cs)"
    using regular_keys[OF reg] by (rule inj_on_subset) auto
  ultimately have "?cs = os" using os(1,5) by (intro sorted_key_unique[where f="?key"]) auto
  then show ?thesis by (simp add: stickyListSorted_def all)
qed

lemma edge_doc [simp]: "edgeContent (p\<lparr>doc := d\<rparr>) c i = edgeContent p c i"
  by (simp add: edgeContent_def)

lemma repOf_doc [simp]: "repOf (p\<lparr>doc := d\<rparr>) c i = repOf p c i"
  by (simp add: repOf_def)

lemma place_tidy:
  assumes reg: "regular p S" and t: "tidy p c os"
    and sR: "s \<in> set (stickies p)" and rep: "edgeContent p c s = Some x"
    and all: "stickyList p s c = stickies p"
    and own: "ownsOne p c"
    and ret: "addToStickyContainer p s c x = Returns p'"
  shows "\<exists>os'. tidy p' c os'"
proof -
  have inj: "i = j" if "i \<in> set (stickies p)" "j \<in> set (stickies p)"
      "edgeContent p c i = Some k" "edgeContent p c j = Some k" for i j k
    using own that unfolding ownsOne_def by blast
  let ?key = "\<lambda>i. distanceFromTop (objs p i)"
  from t have os: "distinct os" "set os \<subseteq> set (stickies p)"
    "\<forall>i \<in> set os. edgeContent p c i \<noteq> None"
    "children (doc p) c = map (repOf p c) os" "sorted (map ?key os)"
    by (simp_all add: tidy_def)
  have repos: "edgeContent p c i = Some (repOf p c i)" if "i \<in> set os" for i
    using os(3) that by (auto simp: repOf_def)
  have xs: "repOf p c s = x" using rep by (simp add: repOf_def)
  have injos: "inj_on (repOf p c) (set os)"
  proof (rule inj_onI)
    fix i j assume ij: "i \<in> set os" "j \<in> set os" and "repOf p c i = repOf p c j"
    with repos[OF ij(1)] repos[OF ij(2)] have "edgeContent p c j = Some (repOf p c i)" by simp
    from inj[OF _ _ repos[OF ij(1)] this] ij os(2) show "i = j" by auto
  qed
  have tidy_doc: "tidy (p\<lparr>doc := d'\<rparr>) c os'"
    if "distinct os'" "set os' \<subseteq> set (stickies p)" "\<forall>i \<in> set os'. edgeContent p c i \<noteq> None"
       "children d' c = map (repOf p c) os'" "sorted (map ?key os')" for d' os'
    using that by (simp add: tidy_def)
  show ?thesis
  proof (cases "children (doc p) c = []")
    case True
    with ret obtain d' where d': "insertBefore (doc p) c x None = Inr d'" and p': "p' = p\<lparr>doc := d'\<rparr>"
      by (auto simp: addToStickyContainer_def appendChild_def domCall_def split: sum.splits)
    from True have "x \<notin> set (children (doc p) c)" by simp
    from children_insert_same[OF d' this] True have "children d' c = [x]"
      by (simp add: placeBefore_def)
    with sR rep xs have "tidy (p\<lparr>doc := d'\<rparr>) c [s]" by (intro tidy_doc) auto
    with p' show ?thesis by blast
  next
    case False
    show ?thesis
    proof (cases "contains (doc p) c x")
      case True
      with False ret have "p' = p" by (simp add: addToStickyContainer_def)
      with t show ?thesis by blast
    next
      case nc: False
      then have xn: "x \<notin> set (children (doc p) c)" using child_contains by blast
      then have sn: "s \<notin> set os" using os(4) xs by force
      let ?P = "\<lambda>i. distanceFromTop (objs p i) \<ge> distanceFromTop (objs p s)"
      have cand: "targetStickyToAppendBefore p s c = find ?P os"
        by (simp add: targetStickyToAppendBefore_def tidy_candidates[OF reg t all own])
      show ?thesis
      proof (cases "find ?P os")
        case None
        with False nc ret cand obtain d' where
          d': "insertBefore (doc p) c x None = Inr d'" and p': "p' = p\<lparr>doc := d'\<rparr>"
          by (auto simp: addToStickyContainer_def domCall_def split: sum.splits)
        from children_insert_same[OF d' xn] os(4) xs
        have ch: "children d' c = map (repOf p c) (os @ [s])" by (simp add: placeBefore_def)
        from find_split(1)[OF None] have "\<forall>i \<in> set os. ?key i \<le> ?key s" by auto
        with os(5) have "sorted (map ?key (os @ [s]))" by (simp add: sorted_append)
        with ch os sn sR rep have "tidy (p\<lparr>doc := d'\<rparr>) c (os @ [s])"
          by (intro tidy_doc) auto
        with p' show ?thesis by blast
      next
        case (Some t)
        from find_split(2)[OF Some] obtain pre post where
          sp: "os = pre @ t # post" and Pt: "?P t" and pre: "\<forall>i \<in> set pre. \<not> ?P i" by blast
        from sp have tin: "t \<in> set os" by simp
        from False nc ret cand Some repos[OF tin] obtain d' where
          d': "insertBefore (doc p) c x (Some (repOf p c t)) = Inr d'" and p': "p' = p\<lparr>doc := d'\<rparr>"
          by (auto simp: addToStickyContainer_def domCall_def split: sum.splits)
        have "repOf p c t \<notin> set (map (repOf p c) pre)"
        proof
          assume "repOf p c t \<in> set (map (repOf p c) pre)"
          then obtain i where i: "i \<in> set pre" "repOf p c i = repOf p c t" by auto
          from i(1) sp have "i \<in> set os" by simp
          from inj_onD[OF injos i(2) this tin] have "i = t" .
          with i(1) sp os(1) show False by simp
        qed
        with children_insert_same[OF d' xn] os(4) sp xs
        have ch: "children d' c = map (repOf p c) (pre @ s # t # post)"
          by (simp add: placeBefore_mid)
        from os(5) sp pre Pt have "sorted (map ?key (pre @ s # t # post))"
          by (auto simp: sorted_append)
        with ch os sn sR rep sp have "tidy (p\<lparr>doc := d'\<rparr>) c (pre @ s # t # post)"
          by (intro tidy_doc) auto
        with p' show ?thesis by blast
      qed
    qed
  qed
qed

lemma place_step:
  assumes "addToStickyContainer st s c x = Returns st'"
  shows "st' = st \<or> (\<exists>d' r. st' = st\<lparr>doc := d'\<rparr> \<and> insertBefore (doc st) c x r = Inr d')"
  using assms
  by (auto simp: addToStickyContainer_def domCall_def appendChild_def Let_def
           split: if_splits sum.splits)

lemma place_other:
  assumes ret: "addToStickyContainer p s c x = Returns p'"
    and t: "tidy p c2 os2" and ne: "c2 \<noteq> c" and xn: "x \<notin> set (children (doc p) c2)"
  shows "tidy p' c2 os2"
proof -
  from place_step[OF ret] show ?thesis
  proof
    assume "p' = p"
    with t show ?thesis by simp
  next
    assume "\<exists>d' r. p' = p\<lparr>doc := d'\<rparr> \<and> insertBefore (doc p) c x r = Inr d'"
    then obtain d' r where p': "p' = p\<lparr>doc := d'\<rparr>" and ins: "insertBefore (doc p) c x r = Inr d'"
      by blast
    from children_insert_other[OF ins ne] xn have "children d' c2 = children (doc p) c2" by simp
    with t p' show ?thesis by (simp add: tidy_def)
  qed
qed

lemma place_regular:
  assumes ret: "addToStickyContainer p s c x = Returns p'" and reg: "regular p S"
  shows "regular p' S"
proof -
  from place_step[OF ret] obtain d' where "p' = p\<lparr>doc := d'\<rparr>"
    by (metis pane.surjective pane.update_convs(9))
  with reg show ?thesis by (simp add: regular_def)
qed

lemma tidy_children:
  "tidy p c os \<Longrightarrow> k \<in> set (children (doc p) c) \<Longrightarrow>
   \<exists>i \<in> set (stickies p). edgeContent p c i = Some k"
  by (auto simp: tidy_def repOf_def)

lemma regular_owns:
  assumes "regular st S" and "stickyAbove st = Some a" and "stickyBelow st = Some b"
  shows "ownsOne st a" "ownsOne st b"
proof -
  from assms have ne: "a \<noteq> b" and RS: "set (stickies st) \<subseteq> S" by (auto simp: regular_def)
  from assms(2,3) ne have e: "edgeContent st a i = stickyContentTop (objs st i)"
    "edgeContent st b i = stickyContentBottom (objs st i)" for i
    by (simp_all add: edgeContent_def)
  show "ownsOne st a" using assms(1) RS unfolding regular_def ownsOne_def e by blast
  show "ownsOne st b" using assms(1) RS unfolding regular_def ownsOne_def e by blast
qed

lemma tidy_distances:
  assumes t: "tidy st c os" and own: "ownsOne st c"
  shows "childDistances st c = map (\<lambda>i. distanceFromTop (objs st i)) os"
proof -
  from t have os: "set os \<subseteq> set (stickies st)" "\<forall>i \<in> set os. edgeContent st c i \<noteq> None"
    "children (doc st) c = map (repOf st c) os" by (simp_all add: tidy_def)
  have own1: "ownerOf st c (repOf st c i) = Some i" if i: "i \<in> set os" for i
  proof -
    from os(2) i have e: "edgeContent st c i = Some (repOf st c i)" by (auto simp: repOf_def)
    from i os(1) have iR: "i \<in> set (stickies st)" by auto
    have "\<forall>j \<in> set (stickies st). edgeContent st c j = Some (repOf st c i) \<longrightarrow> j = i"
      using own e iR unfolding ownsOne_def by blast
    from find_the_one[where P="\<lambda>j. edgeContent st c j = Some (repOf st c i)", OF iR e this]
    show ?thesis by (simp add: ownerOf_def)
  qed
  have "concat (map (\<lambda>k. case ownerOf st c k of None \<Rightarrow> []
                        | Some i \<Rightarrow> [distanceFromTop (objs st i)]) (map (repOf st c) xs))
      = map (\<lambda>i. distanceFromTop (objs st i)) xs" if "set xs \<subseteq> set os" for xs
    using that by (induction xs) (auto simp: own1)
  from this[of os] os(3) show ?thesis by (simp add: childDistances_def)
qed

subsection \<open>Every step of \<^verbatim>\<open>addSticky\<close> keeps the invariant\<close>

lemma sortTop_orderly:
  assumes o: "orderly p S a b" and sR: "s \<in> set (stickies p)"
    and ret: "sortTop p s a = Returns p'"
  shows "orderly p' S a b"
proof -
  from o have reg: "regular p S" and a: "stickyAbove p = Some a" and b: "stickyBelow p = Some b"
    by (simp_all add: orderly_def)
  from reg a b have ne: "a \<noteq> b" by (auto simp: regular_def)
  from a ne have ea: "edgeContent p a i = stickyContentTop (objs p i)"
    and eb: "edgeContent p b i = stickyContentBottom (objs p i)" for i
    by (simp_all add: edgeContent_def)
  from o obtain osa osb where ta: "tidy p a osa" and tb: "tidy p b osb"
    by (auto simp: orderly_def)
  from reg have RS: "set (stickies p) \<subseteq> S" by (simp add: regular_def)
  from sortTop_cases[of p s a] show ?thesis
  proof
    assume "sortTop p s a = Returns p
      \<and> \<not> (canStickyTop (objs p s) \<and> stickyContentTop (objs p s) \<noteq> None)"
    with ret o show ?thesis by simp
  next
    assume "\<exists>x. canStickyTop (objs p s) \<and> stickyContentTop (objs p s) = Some x
          \<and> sortTop p s a = addToStickyContainer p s a x"
    then obtain x where cap: "canStickyTop (objs p s)" and x: "stickyContentTop (objs p s) = Some x"
      and pl: "addToStickyContainer p s a x = Returns p'" using ret by auto
    have all: "stickyList p s a = stickies p" using a cap by (simp add: stickyList_def)
    have inj: "ownsOne p a"
      using reg RS unfolding regular_def ownsOne_def ea by blast
    from x have rep: "edgeContent p a s = Some x" by (simp add: ea)
    from place_tidy[OF reg ta sR rep all inj pl] obtain osa' where ta': "tidy p' a osa'"
      by blast
    have "x \<notin> set (children (doc p) b)"
    proof
      assume "x \<in> set (children (doc p) b)"
      from tidy_children[OF tb this] obtain i where
        i: "i \<in> set (stickies p)" "stickyContentBottom (objs p i) = Some x" by (auto simp: eb)
      with x sR RS reg show False unfolding regular_def by blast
    qed
    from place_other[OF pl tb ne[symmetric] this] have tb': "tidy p' b osb" .
    from place_fields[OF pl] a b have "stickyAbove p' = Some a" "stickyBelow p' = Some b"
      by simp_all
    with ta' tb' place_regular[OF pl reg] show ?thesis unfolding orderly_def by blast
  qed
qed

lemma sortBottom_orderly:
  assumes o: "orderly p S a b" and sR: "s \<in> set (stickies p)"
    and ret: "sortBottom p s b = Returns p'"
  shows "orderly p' S a b"
proof -
  from o have reg: "regular p S" and a: "stickyAbove p = Some a" and b: "stickyBelow p = Some b"
    by (simp_all add: orderly_def)
  from reg a b have ne: "a \<noteq> b" by (auto simp: regular_def)
  from a ne have ea: "edgeContent p a i = stickyContentTop (objs p i)"
    and eb: "edgeContent p b i = stickyContentBottom (objs p i)" for i
    by (simp_all add: edgeContent_def)
  from o obtain osa osb where ta: "tidy p a osa" and tb: "tidy p b osb"
    by (auto simp: orderly_def)
  from reg have RS: "set (stickies p) \<subseteq> S" by (simp add: regular_def)
  from sortBottom_cases[of p s b] show ?thesis
  proof
    assume "sortBottom p s b = Returns p
      \<and> \<not> (canStickyBottom (objs p s) \<and> stickyContentBottom (objs p s) \<noteq> None)"
    with ret o show ?thesis by simp
  next
    assume "\<exists>y. canStickyBottom (objs p s) \<and> stickyContentBottom (objs p s) = Some y
          \<and> sortBottom p s b = addToStickyContainer p s b y"
    then obtain y where cap: "canStickyBottom (objs p s)"
      and y: "stickyContentBottom (objs p s) = Some y"
      and pl: "addToStickyContainer p s b y = Returns p'" using ret by auto
    have all: "stickyList p s b = stickies p" using a ne cap by (simp add: stickyList_def)
    have inj: "ownsOne p b"
      using reg RS unfolding regular_def ownsOne_def eb by blast
    from y have rep: "edgeContent p b s = Some y" by (simp add: eb)
    from place_tidy[OF reg tb sR rep all inj pl] obtain osb' where tb': "tidy p' b osb'"
      by blast
    have "y \<notin> set (children (doc p) a)"
    proof
      assume "y \<in> set (children (doc p) a)"
      from tidy_children[OF ta this] obtain i where
        i: "i \<in> set (stickies p)" "stickyContentTop (objs p i) = Some y" by (auto simp: ea)
      with y sR RS reg show False unfolding regular_def by blast
    qed
    from place_other[OF pl ta ne this] have ta': "tidy p' a osa" .
    from place_fields[OF pl] a b have "stickyAbove p' = Some a" "stickyBelow p' = Some b"
      by simp_all
    with ta' tb' place_regular[OF pl reg] show ?thesis unfolding orderly_def by blast
  qed
qed

lemma sortTop_stickies: "sortTop p s a = Returns p' \<Longrightarrow> stickies p' = stickies p"
  using sortTop_cases[of p s a] place_fields(4)[of p s a _ p'] by auto

lemma sortSticky_orderly:
  assumes o: "orderly p S a b" and sR: "s \<in> set (stickies p)"
    and ret: "sortSticky p s = Returns p'"
  shows "orderly p' S a b"
proof -
  from o have ab: "stickyAbove p = Some a" "stickyBelow p = Some b"
    by (simp_all add: orderly_def)
  show ?thesis
  proof (cases "sortTop p s a")
    case (Throws e q)
    with ret show ?thesis by (simp add: sortSticky_steps[OF ab])
  next
    case (Returns sa)
    with ret have B: "sortBottom sa s b = Returns p'" by (simp add: sortSticky_steps[OF ab])
    from sortTop_stickies[OF Returns] sR have sR': "s \<in> set (stickies sa)" by simp
    from sortBottom_orderly[OF sortTop_orderly[OF o sR Returns] sR' B]
    show ?thesis .
  qed
qed

lemma measure_regular:
  assumes reg: "regular st S" and s: "s \<in> S"
  shows "regular (setDistanceFromTop (st\<lparr>stickies := setAdd s (stickies st)\<rparr>) s) S"
proof -
  let ?q = "setDistanceFromTop (st\<lparr>stickies := setAdd s (stickies st)\<rparr>) s"
  have f: "contentContainer ?q = contentContainer st" "stickyAbove ?q = stickyAbove st"
    "stickyBelow ?q = stickyBelow st" "layoutTop ?q = layoutTop st"
    "stickies ?q = setAdd s (stickies st)"
    by (simp_all add: setDistanceFromTop_def)
  have t: "stickyContentTop (objs ?q i) = stickyContentTop (objs st i)"
    and b: "stickyContentBottom (objs ?q i) = stickyContentBottom (objs st i)" for i
    by (simp_all add: setDistanceFromTop_def)
  have d: "distinct (setAdd s (stickies st))" using reg by (simp add: regular_def setAdd_def)
  have sub: "set (setAdd s (stickies st)) \<subseteq> S" using reg s by (auto simp: regular_def setAdd_def)
  have k: "\<forall>i \<in> set (setAdd s (stickies st)). distanceFromTop (objs ?q i) = layoutTop st i"
    using reg by (auto simp: regular_def setAdd_def setDistanceFromTop_def)
  from reg have "regular st S \<and> distinct (setAdd s (stickies st))
      \<and> set (setAdd s (stickies st)) \<subseteq> S
      \<and> (\<forall>i \<in> set (setAdd s (stickies st)). distanceFromTop (objs ?q i) = layoutTop st i)"
    using d sub k by blast
  then show ?thesis unfolding regular_def f t b by blast
qed

lemma measure_tidy:
  assumes reg: "regular st S" and t: "tidy st c os"
  shows "tidy (setDistanceFromTop (st\<lparr>stickies := setAdd s (stickies st)\<rparr>) s) c os"
proof -
  let ?q = "setDistanceFromTop (st\<lparr>stickies := setAdd s (stickies st)\<rparr>) s"
  have edge: "edgeContent ?q c i = edgeContent st c i" for i
    by (simp add: edgeContent_def setDistanceFromTop_def)
  have rep: "repOf ?q c = repOf st c" by (rule ext) (simp add: repOf_def edge)
  have dq: "doc ?q = doc st" by (simp add: setDistanceFromTop_def)
  from t have sub: "set os \<subseteq> set (stickies st)" by (simp add: tidy_def)
  have key: "distanceFromTop (objs ?q i) = distanceFromTop (objs st i)"
    if "i \<in> set (stickies st)" for i
    using reg that by (simp add: setDistanceFromTop_def regular_def)
  have km: "map (\<lambda>i. distanceFromTop (objs ?q i)) os = map (\<lambda>i. distanceFromTop (objs st i)) os"
    using sub by (intro map_cong) (auto simp: key)
  have sq: "set os \<subseteq> set (stickies ?q)"
    using sub by (auto simp: setDistanceFromTop_def setAdd_def)
  from t have 1: "distinct os" and 3: "\<forall>i \<in> set os. edgeContent st c i \<noteq> None"
    and 4: "children (doc st) c = map (repOf st c) os"
    and 5: "sorted (map (\<lambda>i. distanceFromTop (objs st i)) os)"
    by (simp_all add: tidy_def)
  show ?thesis
    unfolding tidy_def km rep dq edge using 1 sq 3 4 5 by blast
qed

lemma measure_orderly:
  assumes o: "orderly st S a b" and s: "s \<in> S"
  shows "orderly (setDistanceFromTop (st\<lparr>stickies := setAdd s (stickies st)\<rparr>) s) S a b"
proof -
  let ?q = "setDistanceFromTop (st\<lparr>stickies := setAdd s (stickies st)\<rparr>) s"
  from o have reg: "regular st S" and ab: "stickyAbove st = Some a" "stickyBelow st = Some b"
    by (simp_all add: orderly_def)
  from o obtain osa osb where ta: "tidy st a osa" and tb: "tidy st b osb"
    by (auto simp: orderly_def)
  have "stickyAbove ?q = Some a" "stickyBelow ?q = Some b"
    using ab by (simp_all add: setDistanceFromTop_def)
  with measure_regular[OF reg s] measure_tidy[OF reg ta] measure_tidy[OF reg tb]
  show ?thesis unfolding orderly_def by blast
qed

lemma notify_tidy: "tidy st c os \<Longrightarrow> tidy (notifySubscribers st) c os"
proof -
  have e: "edgeContent (notifySubscribers st) c = edgeContent st c"
    by (rule ext) (simp add: edgeContent_def notify_fields)
  have r: "repOf (notifySubscribers st) c = repOf st c"
    by (rule ext) (simp add: repOf_def e)
  assume "tidy st c os"
  then show ?thesis unfolding tidy_def e r notify_fields .
qed

lemma notify_regular: "regular st S \<Longrightarrow> regular (notifySubscribers st) S"
proof -
  have l: "layoutTop (notifySubscribers st) = layoutTop st"
    by (simp add: notifySubscribers_def split: option.splits)
  assume "regular st S"
  then show ?thesis unfolding regular_def notify_fields l .
qed

lemma notify_orderly: "orderly st S a b \<Longrightarrow> orderly (notifySubscribers st) S a b"
  unfolding orderly_def notify_fields using notify_tidy notify_regular by blast

lemma addSticky_orderly:
  assumes o: "orderly st S a b" and s: "s \<in> S" and ret: "addSticky st s = Returns st'"
  shows "orderly st' S a b"
proof -
  let ?q = "setDistanceFromTop (st\<lparr>stickies := setAdd s (stickies st)\<rparr>) s"
  from o obtain c where c: "contentContainer st = Some c" by (auto simp: orderly_def regular_def)
  with ret obtain q' where q': "sortSticky ?q s = Returns q'" and st': "st' = notifySubscribers q'"
    by (cases "sortSticky ?q s") (auto simp: addSticky_def Let_def)
  have "s \<in> set (stickies ?q)" by (simp add: setDistanceFromTop_def setAdd_def)
  from sortSticky_orderly[OF measure_orderly[OF o s] this q'] st' show ?thesis
    by (simp add: notify_orderly)
qed

lemma addAll_orderly:
  "orderly st S a b \<Longrightarrow> set ss \<subseteq> S \<Longrightarrow> addAll st ss = Returns st' \<Longrightarrow> orderly st' S a b"
proof (induction ss arbitrary: st)
  case Nil
  then show ?case by simp
next
  case (Cons s ss)
  from Cons.prems(3) obtain st1 where 1: "addSticky st s = Returns st1"
    and 2: "addAll st1 ss = Returns st'"
    by (cases "addSticky st s") auto
  from addSticky_orderly[OF Cons.prems(1) _ 1] Cons.prems(2) have "orderly st1 S a b" by simp
  from Cons.IH[OF this _ 2] Cons.prems(2) show ?case by simp
qed

lemma orderly_sorted:
  assumes o: "orderly st S a b"
  shows "sorted (childDistances st a) \<and> sorted (childDistances st b)"
proof -
  from o obtain osa osb where ta: "tidy st a osa" and tb: "tidy st b osb"
    and reg: "regular st S" and ab: "stickyAbove st = Some a" "stickyBelow st = Some b"
    by (auto simp: orderly_def)
  from tidy_distances[OF ta regular_owns(1)[OF reg ab]]
       tidy_distances[OF tb regular_owns(2)[OF reg ab]] ta tb
  show ?thesis by (simp add: tidy_def)
qed

section \<open>The claims\<close>

subsection \<open>C1: order of the children of a pinned container\<close>

text \<open>
  C1 says that after any sequence of \<^verbatim>\<open>addSticky\<close> calls the children of each pinned
  container are in non-decreasing order of their owners' \<^verbatim>\<open>distanceFromTop\<close>. The
  code looks for the insertion point in the registry sorted by distance, where regions of
  equal distance stand in registration order; in the container they can stand the other way
  round. On the mounted pane, \<^verbatim>\<open>addSticky\<close> of region 0 (distance 5), region 1
  (distance 5) and region 2 (distance 3), all top-capable, returns normally and leaves
  \<^verbatim>\<open>stickyAbove\<close> with the children of regions 1, 2, 0: distances 5, 3, 5.
\<close>

theorem ties_break_order:
  "addAll pane0 [0, 1, 2] = Returns (stateOf (addAll pane0 [0, 1, 2]))
   \<and> map (\<lambda>s. distanceFromTop (objs (stateOf (addAll pane0 [0, 1, 2])) s)) [0, 1, 2] = [5, 5, 3]
   \<and> children (doc (stateOf (addAll pane0 [0, 1, 2]))) 2 = [21, 31, 11]
   \<and> childDistances (stateOf (addAll pane0 [0, 1, 2])) 2 = [5, 3, 5]
   \<and> \<not> sorted (childDistances (stateOf (addAll pane0 [0, 1, 2])) 2)"
  by (simp add: childDistances_def ownerOf_def example_defs pane_defs dom_defs)

text \<open>
  The scenario of C1 itself comes out as the claim says: region A (distance 10) placed, then
  region B (distance 5), gives the children B, A.
\<close>

lemma scenario_B_before_A:
  "children (doc (stateOf (addAll paneAB [0, 1]))) 2 = [21, 11]
   \<and> childDistances (stateOf (addAll paneAB [0, 1])) 2 = [5, 10]"
  by (simp add: childDistances_def ownerOf_def example_defs pane_defs dom_defs)

text \<open>
  What the code does keep: on a regular pane, where no two regions are laid out at the same
  distance and both containers are in order, every sequence of \<^verbatim>\<open>addSticky\<close> calls
  that returns leaves the children of both containers in non-decreasing order of distance.
\<close>

lemma ordered_without_ties:
  assumes "orderly st S a b" and "set ss \<subseteq> S" and "addAll st ss = Returns st'"
  shows "sorted (childDistances st' a) \<and> sorted (childDistances st' b)"
  using orderly_sorted[OF addAll_orderly[OF assms]] .

text \<open>
  The mounted pane with regions 0, 1, 2 at distances 10, 5, 0 is such a pane; added in the
  order 2, 0, 1, 0 the regions stand in \<^verbatim>\<open>stickyAbove\<close> as 2, 1, 0.
\<close>

lemma paneAB_orderly: "orderly paneAB {0, 1, 2} 2 3"
proof -
  have r: "regular paneAB {0, 1, 2}"
    unfolding regular_def by (simp add: example_defs pane_defs)
  have "children (doc paneAB) 2 = []" "children (doc paneAB) 3 = []"
    by (simp_all add: example_defs dom_defs)
  then have "tidy paneAB 2 []" "tidy paneAB 3 []" by (simp_all add: tidy_def)
  moreover have "stickyAbove paneAB = Some 2" "stickyBelow paneAB = Some 3"
    by (simp_all add: example_defs)
  ultimately show ?thesis using r unfolding orderly_def by blast
qed

lemma paneAB_ordered:
  "sorted (childDistances (stateOf (addAll paneAB [2, 0, 1, 0])) 2)
   \<and> sorted (childDistances (stateOf (addAll paneAB [2, 0, 1, 0])) 3)
   \<and> children (doc (stateOf (addAll paneAB [2, 0, 1, 0]))) 2 = [31, 21, 11]"
proof -
  have ret: "addAll paneAB [2, 0, 1, 0] = Returns (stateOf (addAll paneAB [2, 0, 1, 0]))"
    by (simp add: example_defs pane_defs dom_defs)
  have "children (doc (stateOf (addAll paneAB [2, 0, 1, 0]))) 2 = [31, 21, 11]"
    by (simp add: example_defs pane_defs dom_defs)
  with ordered_without_ties[OF paneAB_orderly _ ret] show ?thesis by simp
qed

subsection \<open>C2: \<^verbatim>\<open>removeSticky\<close>\<close>

text \<open>
  C2 says that \<^verbatim>\<open>removeSticky\<close> never throws, is a no-op on the containers when the
  representations are not their children, and always ends with a broadcast. The first
  \<^verbatim>\<open>removeSticky\<close> of an added region does detach, delete and broadcast. The second
  \<^verbatim>\<open>removeSticky\<close> of the same region, and the \<^verbatim>\<open>removeSticky\<close> of a region
  that was never added, reach \<^verbatim>\<open>removeChild\<close> with an element that is not a child
  of \<^verbatim>\<open>stickyAbove\<close>: a \<^verbatim>\<open>NotFoundError\<close>, and no broadcast.
\<close>

theorem removeSticky_throws:
  "0 \<in> set (stickies paneOne)
   \<and> children (doc paneOne) 2 = [11]
   \<and> removeSticky paneOne 0 = Returns (stateOf (removeSticky paneOne 0))
   \<and> stickies (stateOf (removeSticky paneOne 0)) = []
   \<and> children (doc (stateOf (removeSticky paneOne 0))) 2 = []
   \<and> issued paneOne (stateOf (removeSticky paneOne 0)) = [Handle 7 1 (Some 3)]
   \<and> removeSticky (stateOf (removeSticky paneOne 0)) 0
       = Throws NotFoundError (stateOf (removeSticky paneOne 0))
   \<and> 0 \<notin> set (stickies pane0)
   \<and> stickyContentTop (objs pane0 0) = Some 11
   \<and> 11 \<notin> set (children (doc pane0) 2)
   \<and> removeSticky pane0 0 = Throws NotFoundError pane0"
  by (simp add: issued_def example_defs pane_defs dom_defs)

text \<open>
  Where \<^verbatim>\<open>removeSticky\<close> does what C2 says: when the region has no representations,
  and when both are children of their containers.
\<close>

lemma removeSticky_no_reps:
  assumes "stickyContentTop (objs st s) = None" and "stickyContentBottom (objs st s) = None"
  shows "removeSticky st s = Returns (notifySubscribers (st\<lparr>stickies := setDelete s (stickies st)\<rparr>))"
  using assms
  by (simp add: removeSticky_def removeStickyFromContainers_def split: option.splits)

lemma removeSticky_present:
  assumes "stickyAbove st = Some a" and "stickyBelow st = Some b"
    and "stickyContentTop (objs st s) = Some x" and "stickyContentBottom (objs st s) = Some y"
    and "x \<in> set (children (doc st) a)" and "y \<in> set (children (doc st) b)" and "x \<noteq> y"
  shows "removeSticky st s =
     Returns (notifySubscribers
        (st\<lparr>stickies := setDelete s (stickies st), doc := detach (detach (doc st) x) y\<rparr>))"
proof -
  from assms(6,7) have "y \<in> set (children (detach (doc st) x) b)"
    by (simp add: children_detach)
  with assms(1-5) show ?thesis
    by (simp add: removeSticky_def removeStickyFromContainers_def removeChild_def domCall_def)
qed

subsection \<open>C3: the candidate sibling list\<close>

text \<open>
  C3 says that the candidate sibling list holds the registered regions whose own capability
  flag for the target edge is true (then those whose representation is already a child,
  sorted by distance). The loop of the code tests the flag of the region being placed, once
  per registered region, so every registered region passes. Region 0 was placed while
  top-capable and is no longer top-capable; when region 1 is placed, the code's list is
  [0], the list of the claim is empty, and region 1 lands before region 0 instead of at
  the end.
\<close>

theorem candidates_by_placed_region:
  "stickies paneCapAt1 = [0, 1]
   \<and> children (doc paneCapAt1) 2 = [11]
   \<and> stickyContentTop (objs paneCapAt1 0) = Some 11
   \<and> \<not> canStickyTop (objs paneCapAt1 0)
   \<and> stickyListSorted paneCapAt1 1 2 = [0]
   \<and> specCandidateSiblings paneCapAt1 2 = []
   \<and> children (doc (stateOf (addSticky paneCap 1))) 2 = [21, 11]"
  by (simp add: specCandidateSiblings_def example_defs pane_defs dom_defs)

subsection \<open>C4: placement is idempotent\<close>




subsection \<open>C5: the heights are sums\<close>

text \<open>
  C5: after \<^verbatim>\<open>updateStickyRefHeights\<close>, \<^verbatim>\<open>stickyTopHeight\<close> is the sum of
  \<^verbatim>\<open>nonStickyContent.offsetHeight\<close> over exactly the registered regions whose
  \<^verbatim>\<open>isStickyTop\<close> is true, and \<^verbatim>\<open>stickyBottomHeight\<close> likewise for
  \<^verbatim>\<open>isStickyBottom\<close>, with the same height of a region on both edges; the two
  totals are recomputed, not patched: whatever they were before the pass, they are the
  same after it. (What does depend on the earlier totals is the broadcast at the end of the
  pass, which \<^verbatim>\<open>componentDidUpdate\<close> makes when a total has changed.)
\<close>

theorem heights_recomputed:
  "stickyTopHeight (updateStickyRefHeights st)
     = sum_list (map (renderedHeight st) (filter (\<lambda>s. isStickyTop (objs st s)) (stickies st)))
   \<and> stickyBottomHeight (updateStickyRefHeights st)
     = sum_list (map (renderedHeight st) (filter (\<lambda>s. isStickyBottom (objs st s)) (stickies st)))
   \<and> stickyTopHeight (updateStickyRefHeights (st\<lparr>stickyTopHeight := t0, stickyBottomHeight := b0\<rparr>))
     = stickyTopHeight (updateStickyRefHeights st)
   \<and> stickyBottomHeight (updateStickyRefHeights (st\<lparr>stickyTopHeight := t0, stickyBottomHeight := b0\<rparr>))
     = stickyBottomHeight (updateStickyRefHeights st)"
  by (simp add: update_result_top cong: map_cong)

theorem heights_recomputed_witness:
  "stickies paneThree = [0, 1, 2]
   \<and> stickyTopHeight paneThree = 0 \<and> stickyBottomHeight paneThree = 0
   \<and> stickyTopHeight (updateStickyRefHeights paneThree) = 50
   \<and> stickyBottomHeight (updateStickyRefHeights paneThree) = 10
   \<and> stickyTopHeight (updateStickyRefHeights (paneThree\<lparr>stickyTopHeight := 7, stickyBottomHeight := 9\<rparr>)) = 50
   \<and> stickyBottomHeight (updateStickyRefHeights (paneThree\<lparr>stickyTopHeight := 7, stickyBottomHeight := 9\<rparr>)) = 10"
  using heights_recomputed[where st=paneThree and ?t0.0=7 and ?b0.0=9]
  by (simp add: paneThree_fields paneThree_more)

subsection \<open>C6: membership in a pinned container\<close>

text \<open>
  C6 says that a representation is a child of its pinned container if and only if the
  region's \<^verbatim>\<open>isStickyTop\<close> (\<^verbatim>\<open>isStickyBottom\<close>) flag is true. The pane places
  by capability: after \<^verbatim>\<open>addSticky\<close> of a top-capable region that is not pinned, its
  top representation is a child of \<^verbatim>\<open>stickyAbove\<close>.
\<close>

theorem member_iff_pinned_counterexample:
  "addSticky pane0 0 = Returns paneOne
   \<and> 0 \<in> set (stickies paneOne)
   \<and> stickyAbove paneOne = Some 2
   \<and> stickyContentTop (objs paneOne 0) = Some 11
   \<and> 11 \<in> set (children (doc paneOne) 2)
   \<and> \<not> isStickyTop (objs paneOne 0)
   \<and> \<not> memberIffPinned paneOne 0"
  by (simp add: memberIffPinned_def example_defs pane_defs dom_defs)

text \<open>
  C6 as the code has it, on a pane with both containers and for a region with
  \<open>repsApart\<close>. After \<^verbatim>\<open>sortSticky\<close> (or \<^verbatim>\<open>addSticky\<close> on a pane with its
  content container) has returned, the top representation of a top-capable region is a
  child of \<^verbatim>\<open>stickyAbove\<close> and the bottom representation of a bottom-capable region
  is inside \<^verbatim>\<open>stickyBelow\<close>; after \<^verbatim>\<open>removeSticky\<close> has returned, neither
  representation is a child of its container. And the pin flags have no part in it: for each
  of \<^verbatim>\<open>addSticky\<close>, \<^verbatim>\<open>removeSticky\<close>, \<^verbatim>\<open>sortSticky\<close>,
  \<^verbatim>\<open>updateStickyRefHeights\<close> and \<^verbatim>\<open>notifySubscribers\<close>, the children of
  \<^verbatim>\<open>stickyAbove\<close> and of \<^verbatim>\<open>stickyBelow\<close> after the operation are the same
  whatever \<^verbatim>\<open>isStickyTop\<close> and \<^verbatim>\<open>isStickyBottom\<close> of any region are.
\<close>

theorem placed_by_capability:
  assumes "stickyAbove st = Some a" and "stickyBelow st = Some b" and "repsApart st s"
  shows "(sortSticky st s = Returns st' \<longrightarrow>
            (canStickyTop (objs st s) \<and> stickyContentTop (objs st s) = Some x
               \<longrightarrow> x \<in> set (children (doc st') a))
          \<and> (canStickyBottom (objs st s) \<and> stickyContentBottom (objs st s) = Some y
               \<longrightarrow> contains (doc st') b y))
       \<and> (contentContainer st \<noteq> None \<and> addSticky st s = Returns st'' \<longrightarrow>
            (canStickyTop (objs st s) \<and> stickyContentTop (objs st s) = Some x
               \<longrightarrow> x \<in> set (children (doc st'') a))
          \<and> (canStickyBottom (objs st s) \<and> stickyContentBottom (objs st s) = Some y
               \<longrightarrow> contains (doc st'') b y))
       \<and> (removeSticky st s = Returns st''' \<longrightarrow>
            (stickyContentTop (objs st s) = Some x \<longrightarrow> x \<notin> set (children (doc st''') a))
          \<and> (stickyContentBottom (objs st s) = Some y \<longrightarrow> y \<notin> set (children (doc st''') b)))
       \<and> children (doc (stateOf (perform (setPinned st i pinnedTop pinnedBottom) op))) a
            = children (doc (stateOf (perform st op))) a
       \<and> children (doc (stateOf (perform (setPinned st i pinnedTop pinnedBottom) op))) b
            = children (doc (stateOf (perform st op))) b"
proof (intro conjI impI)
  assume "sortSticky st s = Returns st'"
  note r = sortSticky_placed[OF assms this, of x y]
  { assume "canStickyTop (objs st s) \<and> stickyContentTop (objs st s) = Some x"
    with r show "x \<in> set (children (doc st') a)" by blast }
  { assume "canStickyBottom (objs st s) \<and> stickyContentBottom (objs st s) = Some y"
    with r show "contains (doc st') b y" by blast }
next
  assume h: "contentContainer st \<noteq> None \<and> addSticky st s = Returns st''"
  define q where "q = setDistanceFromTop (st\<lparr>stickies := setAdd s (stickies st)\<rparr>) s"
  from h obtain q' where q': "sortSticky q s = Returns q'" and st'': "st'' = notifySubscribers q'"
    by (cases "sortSticky q s") (auto simp: addSticky_def Let_def q_def)
  have qa: "stickyAbove q = Some a" "stickyBelow q = Some b" "repsApart q s"
    using assms by (simp_all add: q_def measured_fields measured_repsApart)
  note r = sortSticky_placed[OF qa q', of x y]
  { assume "canStickyTop (objs st s) \<and> stickyContentTop (objs st s) = Some x"
    with r show "x \<in> set (children (doc st'') a)"
      by (simp add: st'' notify_fields q_def measured_fields) }
  { assume "canStickyBottom (objs st s) \<and> stickyContentBottom (objs st s) = Some y"
    with r show "contains (doc st'') b y"
      by (simp add: st'' notify_fields q_def measured_fields) }
next
  assume r: "removeSticky st s = Returns st'''"
  { assume "stickyContentTop (objs st s) = Some x"
    from removed_not_child(1)[OF r assms(1) this] show "x \<notin> set (children (doc st''') a)" . }
  { assume "stickyContentBottom (objs st s) = Some y"
    from removed_not_child(2)[OF r assms(2) this] show "y \<notin> set (children (doc st''') b)" . }
next
  show "children (doc (stateOf (perform (setPinned st i pinnedTop pinnedBottom) op))) a
      = children (doc (stateOf (perform st op))) a" by (simp add: doc_any_flags)
next
  show "children (doc (stateOf (perform (setPinned st i pinnedTop pinnedBottom) op))) b
      = children (doc (stateOf (perform st op))) b" by (simp add: doc_any_flags)
qed

theorem placed_by_capability_witness:
  "stickyAbove pane0 = Some 2 \<and> stickyBelow pane0 = Some 3 \<and> repsApart pane0 2
   \<and> contentContainer pane0 = Some 1
   \<and> canStickyTop (objs pane0 2) \<and> stickyContentTop (objs pane0 2) = Some 31
   \<and> canStickyBottom (objs pane0 2) \<and> stickyContentBottom (objs pane0 2) = Some 32
   \<and> \<not> isStickyTop (objs pane0 2) \<and> \<not> isStickyBottom (objs pane0 2)
   \<and> addSticky pane0 2 = Returns paneTwo
   \<and> 31 \<in> set (children (doc paneTwo) 2)
   \<and> contains (doc paneTwo) 3 32
   \<and> children (doc (stateOf (perform (setPinned pane0 2 True True) (AddSticky 2)))) 2 = [31]
   \<and> children (doc (stateOf (perform (setPinned pane0 2 True True) (AddSticky 2)))) 3 = [32]
   \<and> stickyAbove paneTwo = Some 2 \<and> stickyBelow paneTwo = Some 3 \<and> repsApart paneTwo 2
   \<and> removeSticky paneTwo 2 = Returns (stateOf (removeSticky paneTwo 2))
   \<and> 31 \<notin> set (children (doc (stateOf (removeSticky paneTwo 2))) 2)
   \<and> 32 \<notin> set (children (doc (stateOf (removeSticky paneTwo 2))) 3)"
proof -
  have a: "addSticky pane0 2 = Returns paneTwo" using add_pane0_2 by (simp add: paneTwo_def)
  from placed_by_capability[OF pane0_fields(1,2) pane0_repsApart(2),
      where x=31 and y=32 and st''=paneTwo and i=2 and pinnedTop=True and pinnedBottom=True
        and op="AddSticky 2"]
    a pane0_fields
  have 1: "31 \<in> set (children (doc paneTwo) 2)" "contains (doc paneTwo) 3 32"
    "children (doc (stateOf (perform (setPinned pane0 2 True True) (AddSticky 2)))) 2 = [31]"
    "children (doc (stateOf (perform (setPinned pane0 2 True True) (AddSticky 2)))) 3 = [32]"
    by (simp_all add: paneTwo_fields)
  from placed_by_capability[OF paneTwo_fields(1,2,9),
      where x=31 and y=32 and st'''="stateOf (removeSticky paneTwo 2)"]
    paneTwo_fields
  have 2: "31 \<notin> set (children (doc (stateOf (removeSticky paneTwo 2))) 2)"
    "32 \<notin> set (children (doc (stateOf (removeSticky paneTwo 2))) 3)"
    by simp_all
  from 1 2 a pane0_fields pane0_repsApart paneTwo_fields show ?thesis by simp
qed

subsection \<open>C7: the reconciliation check\<close>




subsection \<open>C8: the mutation observer's callback\<close>

text \<open>
  C8, on a pane with both containers and for a batch that is not empty (the observer is
  created when the pane has mounted, and an observer delivers no empty batch): the callback
  broadcasts first (the handlers' calls come before any other call it makes), then either
  recomputes the heights with \<^verbatim>\<open>updateStickyRefHeights\<close>, when some record's target
  is inside \<^verbatim>\<open>stickyAbove\<close> or \<^verbatim>\<open>stickyBelow\<close>, or else calls
  \<^verbatim>\<open>forceUpdate\<close> on exactly the registered regions whose \<^verbatim>\<open>root\<close> contains
  the target of the first record, in registry order, and leaves the heights alone.
\<close>

theorem mutation_batch_classified:
  assumes "stickyAbove st = Some a" and "stickyBelow st = Some b"
  shows "mutationCallback st (m # ms) =
     Returns
       (if \<exists>r \<in> set (m # ms).
             contains (doc st) a (target r) \<or> contains (doc st) b (target r)
        then updateStickyRefHeights (notifySubscribers st)
        else (notifySubscribers st)
               \<lparr>calls := calls (notifySubscribers st)
                  @ map StickyForceUpdate
                      (filter (\<lambda>s. case root (objs st s) of
                                     None \<Rightarrow> False
                                   | Some r \<Rightarrow> contains (doc st) r (target m))
                         (stickies st))\<rparr>)
   \<and> take (length (calls (notifySubscribers st)))
         (calls (stateOf (mutationCallback st (m # ms)))) = calls (notifySubscribers st)"
proof -
  let ?st1 = "notifySubscribers st"
  have cls: "list_ex (checkIfMutationIsSticky ?st1) (m # ms)
      = (\<exists>r \<in> set (m # ms). contains (doc st) a (target r) \<or> contains (doc st) b (target r))"
    using assms by (simp add: list_ex_iff classify_mounted notify_fields)
  show ?thesis
  proof (cases "\<exists>r \<in> set (m # ms). contains (doc st) a (target r) \<or> contains (doc st) b (target r)")
    case True
    with cls have "mutationCallback st (m # ms) = Returns (updateStickyRefHeights ?st1)"
      by (simp add: mutationCallback_def Let_def)
    with True show ?thesis by (simp add: update_calls_grow)
  next
    case False
    with cls have "mutationCallback st (m # ms) =
      Returns (?st1\<lparr>calls := calls ?st1
                  @ map StickyForceUpdate
                      (filter (\<lambda>s. case root (objs st s) of
                                     None \<Rightarrow> False
                                   | Some r \<Rightarrow> contains (doc st) r (target m))
                         (stickies st))\<rparr>)"
      by (simp add: mutationCallback_def Let_def notify_fields cong: option.case_cong)
    with False show ?thesis by simp
  qed
qed

theorem mutation_batch_classified_witness:
  "stickyAbove paneThree = Some 2 \<and> stickyBelow paneThree = Some 3
   \<and> contains (doc paneThree) 20 23
   \<and> issued paneThree (stateOf (mutationCallback paneThree [\<lparr>target = 13\<rparr>, \<lparr>target = 23\<rparr>]))
       = [Handle 7 1 (Some 3), StickyForceUpdate 0]
   \<and> stickyTopHeight (stateOf (mutationCallback paneThree [\<lparr>target = 13\<rparr>, \<lparr>target = 23\<rparr>])) = 0
   \<and> mutationCallback paneThree [\<lparr>target = 23\<rparr>, \<lparr>target = 11\<rparr>]
       = Returns (updateStickyRefHeights (notifySubscribers paneThree))
   \<and> stickyTopHeight (stateOf (mutationCallback paneThree [\<lparr>target = 23\<rparr>, \<lparr>target = 11\<rparr>])) = 50
   \<and> issued paneThree (stateOf (mutationCallback paneThree [\<lparr>target = 23\<rparr>, \<lparr>target = 11\<rparr>]))
       = [Handle 7 1 (Some 3), StickyAddSticky 0 11, StickyAddSticky 2 31, StickyAddSticky 2 32,
          Handle 7 1 (Some 3)]"
proof -
  have c: "contains (doc paneThree) 20 23" "contains (doc paneThree) 10 13"
    "\<not> contains (doc paneThree) 20 13" "\<not> contains (doc paneThree) 30 13"
    "\<not> contains (doc paneThree) 2 13" "\<not> contains (doc paneThree) 3 13"
    "\<not> contains (doc paneThree) 2 23" "\<not> contains (doc paneThree) 3 23"
    "contains (doc paneThree) 2 11"
    by (simp_all add: paneThree_more dom_defs)
  have n: "notifySubscribers paneThree = paneThree\<lparr>calls := calls paneThree @ [Handle 7 1 (Some 3)]\<rparr>"
    by (simp add: notifySubscribers_def paneThree_more)
  have h: "stickyTopHeight (updateStickyRefHeights (notifySubscribers paneThree)) = 50"
    by (simp add: update_result_top notify_fields renderedHeight_notify paneThree_fields)
  from mutation_batch_classified[of paneThree 2 3 "\<lparr>target = 13\<rparr>" "[\<lparr>target = 23\<rparr>]"]
       c n paneThree_more
  have 1: "issued paneThree (stateOf (mutationCallback paneThree [\<lparr>target = 13\<rparr>, \<lparr>target = 23\<rparr>]))
       = [Handle 7 1 (Some 3), StickyForceUpdate 0]"
    "stickyTopHeight (stateOf (mutationCallback paneThree [\<lparr>target = 13\<rparr>, \<lparr>target = 23\<rparr>])) = 0"
    by (simp_all add: paneThree_fields issued_def)
  from mutation_batch_classified[of paneThree 2 3 "\<lparr>target = 23\<rparr>" "[\<lparr>target = 11\<rparr>]"]
       c paneThree_more
  have 2: "mutationCallback paneThree [\<lparr>target = 23\<rparr>, \<lparr>target = 11\<rparr>]
       = Returns (updateStickyRefHeights (notifySubscribers paneThree))"
    by simp
  from 1 2 c(1) h paneThree_more(1,2) paneThree_pass show ?thesis by simp
qed

subsection \<open>C9: both containers or nothing\<close>

text \<open>
  C9: when \<^verbatim>\<open>stickyAbove\<close> or \<^verbatim>\<open>stickyBelow\<close> is null,
  \<^verbatim>\<open>sortSticky\<close> places nothing, \<^verbatim>\<open>_checkStickyStatus\<close> does nothing, and
  \<^verbatim>\<open>checkIfMutationIsSticky\<close> is false for every record, also for one whose
  target is inside the container that is there.
\<close>

theorem both_containers_required:
  assumes "stickyAbove st = None \<or> stickyBelow st = None"
  shows "sortSticky st s = Returns st \<and> checkStickyStatus st s = st
         \<and> \<not> checkIfMutationIsSticky st r"
  using sortSticky_unmounted[OF assms] check_unmounted[OF assms] classify_unmounted[OF assms]
  by blast

theorem both_containers_required_witness:
  "stickyAbove paneHalf = Some 2 \<and> stickyBelow paneHalf = None
   \<and> contains (doc paneHalf) 2 11
   \<and> canStickyTop (objs paneHalf 1) \<and> stickyContentTop (objs paneHalf 1) = Some 21
   \<and> sortSticky paneHalf 1 = Returns paneHalf
   \<and> isStickyTop (objs paneHalf 0) \<and> nonStickyContent (objs paneHalf 0) = Some 13
   \<and> checkStickyStatus paneHalf 0 = paneHalf
   \<and> \<not> checkIfMutationIsSticky paneHalf \<lparr>target = 11\<rparr>"
proof -
  have "contains (doc paneHalf) 2 11" by (simp add: paneHalf_fields dom_defs)
  with both_containers_required[of paneHalf 1 "\<lparr>target = 11\<rparr>"]
       both_containers_required[of paneHalf 0 "\<lparr>target = 11\<rparr>"] paneHalf_fields
  show ?thesis by simp
qed

subsection \<open>C10: regions without \<^verbatim>\<open>nonStickyContent\<close>\<close>

text \<open>
  C10: a registered region whose \<^verbatim>\<open>nonStickyContent\<close> is null adds nothing to
  either total and is not checked, whatever its flags: its round of the loop changes
  nothing, and the whole pass ends as it would without the region in the registry.
\<close>

theorem no_content_no_part:
  assumes "nonStickyContent (objs st s) = None"
  shows "heightStep s (t, b, st) = (t, b, st)
    \<and> updateStickyRefHeights (st\<lparr>stickies := removeAll s (stickies st)\<rparr>)
        = (updateStickyRefHeights st)\<lparr>stickies := removeAll s (stickies st)\<rparr>"
proof -
  have "fold heightStep (removeAll s (stickies st)) (0, 0, st\<lparr>stickies := removeAll s (stickies st)\<rparr>)
    = (case fold heightStep (stickies st) (0, 0, st) of
         (t', b', p) \<Rightarrow> (t', b', p\<lparr>stickies := removeAll s (stickies st)\<rparr>))"
    by (simp add: fold_stickies fold_skip[OF assms])
  then show ?thesis using assms
    by (simp add: updateStickyRefHeights_def setState_stickies split: prod.splits)
qed

theorem no_content_no_part_witness:
  "nonStickyContent (objs paneNoContent 0) = None \<and> isStickyTop (objs paneNoContent 0)
   \<and> stickies paneNoContent = [0]
   \<and> heightStep 0 (0, 0, paneNoContent) = (0, 0, paneNoContent)
   \<and> updateStickyRefHeights (paneNoContent\<lparr>stickies := []\<rparr>)
        = (updateStickyRefHeights paneNoContent)\<lparr>stickies := []\<rparr>"
proof -
  have a: "nonStickyContent (objs paneNoContent 0) = None" "isStickyTop (objs paneNoContent 0)"
     "stickies paneNoContent = [0]"
    by (simp_all add: example_defs)
  from no_content_no_part[OF a(1), of 0 0] a show ?thesis by simp
qed

end
